theory Spec2Isabelle
  imports Complex_Main
begin

section \<open>The live interview session component\<close>

text \<open>
  The repository holds the session component twice: \<^verbatim>\<open>src/components/InterviewSession.tsx\<close>
  and a later revision, \<^verbatim>\<open>src/unnamed/part_001\<close>. The two agree line by line on most of
  the handlers; where they differ (the interruption branch, the tool-call branch, the frame
  tick) the model takes the revision as a parameter and follows each text.
\<close>

datatype variant = InterviewSession_tsx | Part_001

subsection \<open>JavaScript strings and numbers\<close>

text \<open>
  Strings are lists of characters; a \<^typ>\<open>char\<close> stands for a code unit below 256. The
  white space that \<^verbatim>\<open>String.prototype.trim\<close> removes is, in that range, TAB, LF, VT, FF,
  CR, SP and NBSP. A string is truthy when it is not empty.
\<close>

definition isWhiteSpace :: "char \<Rightarrow> bool" where
  "isWhiteSpace c =
     (c = CHR 0x09 \<or> c = CHR 0x0A \<or> c = CHR 0x0B \<or> c = CHR 0x0C \<or> c = CHR 0x0D
      \<or> c = CHR 0x20 \<or> c = CHR 0xA0)"

definition trim :: "string \<Rightarrow> string" where
  "trim s = rev (dropWhile isWhiteSpace (rev (dropWhile isWhiteSpace s)))"

text \<open>\<^verbatim>\<open>s += x\<close> on a string converts \<open>x\<close> to a string first; \<^verbatim>\<open>undefined\<close> becomes
  the nine letters of its name.\<close>

definition toString_opt :: "string option \<Rightarrow> string" where
  "toString_opt x = (case x of None \<Rightarrow> ''undefined'' | Some s \<Rightarrow> s)"

definition digit :: "nat \<Rightarrow> char" where
  "digit d = char_of (48 + d)"

text \<open>\<^verbatim>\<open>Number.prototype.toString\<close> on a natural number: its decimal digits.\<close>

fun toString :: "nat \<Rightarrow> string" where
  "toString n = (if n < 10 then [digit n] else toString (n div 10) @ [digit (n mod 10)])"

declare toString.simps [simp del]

text \<open>\<^verbatim>\<open>s.padStart(n, c)\<close> with a one-character pad string.\<close>

definition padStart :: "nat \<Rightarrow> char \<Rightarrow> string \<Rightarrow> string" where
  "padStart n c s = (if n \<le> length s then s else replicate (n - length s) c @ s)"

text \<open>A timer handle or a number in a condition: \<^verbatim>\<open>null\<close> and \<open>0\<close> are falsy.\<close>

definition truthy :: "nat option \<Rightarrow> bool" where
  "truthy r = (case r of None \<Rightarrow> False | Some h \<Rightarrow> h \<noteq> 0)"

subsection \<open>Data of \<^verbatim>\<open>types.ts\<close> and of the protocol\<close>

datatype Role = User | Interviewer

record TranscriptionTurn =
  role :: Role
  turn_text :: string

record VisualFeedback =
  cue :: "string option"
  sentiment :: "string option"

text \<open>The inbound message, with every optional field of the SDK's types as an option.\<close>

record FunctionCall =
  fc_id :: "string option"
  fc_name :: "string option"
  fc_args :: "VisualFeedback option"

record LiveServerToolCall =
  functionCalls :: "FunctionCall list option"

record Transcription =
  transcription_text :: "string option"

record Blob =
  blob_data :: "string option"

record Part =
  inlineData :: "Blob option"

record Content =
  parts :: "Part list option"

record LiveServerContent =
  outputTranscription :: "Transcription option"
  inputTranscription :: "Transcription option"
  turnComplete :: bool
  modelTurn :: "Content option"
  interrupted :: bool

record LiveServerMessage =
  toolCall :: "LiveServerToolCall option"
  serverContent :: "LiveServerContent option"

text \<open>What the component sends on the channel, and the platform calls it makes.\<close>

datatype outbound =
    RealtimeAudio string
  | RealtimeImage string string
  | ToolResponse "string option" "string option" string

datatype call =
    SessionClose
  | InputContextClose
  | OutputContextClose
  | ClearInterval nat
  | ClearTimeout nat
  | SetTimeout nat nat
  | SourceStart nat real real
  | SourceStop nat

record transcription =
  user :: string
  model :: string

text \<open>
  The component's refs and React state. A ref that is \<^verbatim>\<open>null\<close> or an object is a
  \<^typ>\<open>bool\<close> (is it set); a source node is the number it was created under;
  \<open>sourcesRef\<close> lists the live set in insertion order, as a JavaScript \<^verbatim>\<open>Set\<close> iterates.
  \<open>sent\<close> and \<open>calls\<close> record, in order, what was handed to the channel and to the
  platform; \<open>nextHandle\<close> and \<open>nextNode\<close> are the platform's counters for fresh timer
  handles and source nodes; \<open>framesInFlight\<close> counts the \<^verbatim>\<open>canvas.toBlob\<close> callbacks
  that have not run yet.
\<close>

record session =
  isReady :: bool
  isListening :: bool
  currentTranscript :: "TranscriptionTurn list"
  partialTranscript :: transcription
  secondsElapsed :: nat
  visualFeedback :: "VisualFeedback option"
  feedbackTimeoutRef :: "nat option"
  audioContextRef :: bool
  sessionRef :: bool
  nextStartTimeRef :: real
  sourcesRef :: "nat list"
  transcriptionRef :: transcription
  videoRef :: bool
  canvasRef :: bool
  frameIntervalRef :: "nat option"
  timerIntervalRef :: "nat option"
  isMutedRef :: bool
  sent :: "outbound list"
  calls :: "call list"
  nextHandle :: nat
  nextNode :: nat
  framesInFlight :: nat

subsection \<open>\<^verbatim>\<open>formatTime\<close> and \<^verbatim>\<open>handleFinish\<close>\<close>

definition formatTime :: "nat \<Rightarrow> string" where
  "formatTime totalSeconds =
     (let mins = totalSeconds div 60;
          secs = totalSeconds mod 60
      in padStart 2 (CHR ''0'') (toString mins) @ '':'' @ padStart 2 (CHR ''0'') (toString secs))"

text \<open>\<^verbatim>\<open>handleFinish\<close> hands \<^verbatim>\<open>onComplete\<close> its two arguments.\<close>

definition handleFinish :: "session \<Rightarrow> TranscriptionTurn list \<times> string" where
  "handleFinish st = (currentTranscript st, formatTime (secondsElapsed st))"

subsection \<open>The elapsed-time timer\<close>

text \<open>The interval callback of the timer effect: \<^verbatim>\<open>setSecondsElapsed(prev => prev + 1)\<close>.\<close>

definition timerTick :: "session \<Rightarrow> session" where
  "timerTick st = st\<lparr>secondsElapsed := secondsElapsed st + 1\<rparr>"

subsection \<open>\<^verbatim>\<open>cleanup\<close>\<close>

text \<open>
  Each guarded release of \<^verbatim>\<open>cleanup\<close> is one step. The revision \<^verbatim>\<open>part_001\<close> wraps the
  three \<^verbatim>\<open>close()\<close> calls in \<^verbatim>\<open>try/catch\<close>; the calls are made and recorded either way,
  so one definition serves both revisions.
\<close>

definition closeSession :: "session \<Rightarrow> session" where
  "closeSession st =
     (if sessionRef st then st\<lparr>calls := calls st @ [SessionClose], sessionRef := False\<rparr> else st)"

definition closeAudioContexts :: "session \<Rightarrow> session" where
  "closeAudioContexts st =
     (if audioContextRef st
      then st\<lparr>calls := calls st @ [InputContextClose, OutputContextClose], audioContextRef := False\<rparr>
      else st)"

definition clearFrameInterval :: "session \<Rightarrow> session" where
  "clearFrameInterval st =
     (if truthy (frameIntervalRef st)
      then st\<lparr>calls := calls st @ [ClearInterval (the (frameIntervalRef st))], frameIntervalRef := None\<rparr>
      else st)"

definition clearTimerInterval :: "session \<Rightarrow> session" where
  "clearTimerInterval st =
     (if truthy (timerIntervalRef st)
      then st\<lparr>calls := calls st @ [ClearInterval (the (timerIntervalRef st))], timerIntervalRef := None\<rparr>
      else st)"

text \<open>The cue timer is cleared, and its ref keeps the handle.\<close>

definition clearFeedbackTimeout :: "session \<Rightarrow> session" where
  "clearFeedbackTimeout st =
     (if truthy (feedbackTimeoutRef st)
      then st\<lparr>calls := calls st @ [ClearTimeout (the (feedbackTimeoutRef st))]\<rparr>
      else st)"

text \<open>\<^verbatim>\<open>sourcesRef.current.forEach(s => { try { s.stop(); } catch(e) {} }); sourcesRef.current.clear();
  nextStartTimeRef.current = 0;\<close> (the same three lines end \<^verbatim>\<open>cleanup\<close> and make the
  interruption branch of \<^verbatim>\<open>onmessage\<close>).\<close>

definition stopSources :: "session \<Rightarrow> session" where
  "stopSources st =
     st\<lparr>calls := calls st @ map SourceStop (sourcesRef st), sourcesRef := [], nextStartTimeRef := 0\<rparr>"

definition cleanup :: "session \<Rightarrow> session" where
  "cleanup st =
     (let st1 = closeSession st;
          st2 = closeAudioContexts st1;
          st3 = clearFrameInterval st2;
          st4 = clearTimerInterval st3;
          st5 = clearFeedbackTimeout st4;
          st6 = stopSources st5
      in st6\<lparr>isReady := False, isListening := False\<rparr>)"

subsection \<open>The capture callbacks set up in \<^verbatim>\<open>onopen\<close>\<close>

text \<open>
  \<^verbatim>\<open>scriptProcessor.onaudioprocess\<close>. \<^verbatim>\<open>createPcmBlob\<close> is imported from
  \<^verbatim>\<open>services/audioUtils\<close>, which is not among the sources, so it is a parameter. The send is
  registered on \<^verbatim>\<open>sessionPromise\<close>; sends leave in the order they are registered.
\<close>

definition onaudioprocess :: "('a \<Rightarrow> string) \<Rightarrow> 'a \<Rightarrow> session \<Rightarrow> session" where
  "onaudioprocess createPcmBlob inputData st =
     (if isMutedRef st then st
      else st\<lparr>sent := sent st @ [RealtimeAudio (createPcmBlob inputData)]\<rparr>)"

text \<open>
  The callback of \<^verbatim>\<open>frameIntervalRef\<close>. \<open>ctx\<close> says whether \<^verbatim>\<open>canvas.getContext('2d')\<close>
  gave a context and \<open>videoWidth\<close> is the video element's width at the tick. A tick that
  passes the tests draws the frame and calls \<^verbatim>\<open>canvas.toBlob\<close>, whose callback runs later.
\<close>

definition frameTick :: "variant \<Rightarrow> bool \<Rightarrow> nat \<Rightarrow> session \<Rightarrow> session" where
  "frameTick v ctx videoWidth st =
     (if videoRef st \<and> canvasRef st \<and> sessionRef st
      then (if (case v of InterviewSession_tsx \<Rightarrow> ctx | Part_001 \<Rightarrow> ctx \<and> videoWidth \<noteq> 0)
            then st\<lparr>framesInFlight := framesInFlight st + 1\<rparr>
            else st)
      else st)"

text \<open>
  The callback given to \<^verbatim>\<open>canvas.toBlob\<close>, with the base64 text that \<^verbatim>\<open>blobToBase64\<close>
  reads from the blob (\<open>None\<close> for a \<^verbatim>\<open>null\<close> blob). It runs once for each capture
  started, so the counter is positive when it runs.
\<close>

definition toBlobCallback :: "string option \<Rightarrow> session \<Rightarrow> session" where
  "toBlobCallback blob st =
     (let st1 = st\<lparr>framesInFlight := framesInFlight st - 1\<rparr>
      in case blob of
           None \<Rightarrow> st1
         | Some base64Data \<Rightarrow> st1\<lparr>sent := sent st1 @ [RealtimeImage base64Data ''image/jpeg'']\<rparr>)"

subsection \<open>\<^verbatim>\<open>onmessage\<close>\<close>

text \<open>
  The handler is an \<^verbatim>\<open>async\<close> function with no \<^verbatim>\<open>try\<close>: a \<^verbatim>\<open>TypeError\<close> or a failed decode
  ends it where it stands, and the refs keep what was written before. \<open>Completed\<close> carries
  the state of a handler that ran to its end, \<open>Rejected\<close> the state at the throw. Each
  handler runs to its end before the next event is taken (the decode is awaited inside it).
\<close>

datatype outcome = Completed session | Rejected session

fun state_of :: "outcome \<Rightarrow> session" where
  "state_of (Completed st) = st"
| "state_of (Rejected st) = st"

fun completed :: "outcome \<Rightarrow> bool" where
  "completed (Completed st) = True"
| "completed (Rejected st) = False"

fun andThen :: "outcome \<Rightarrow> (session \<Rightarrow> outcome) \<Rightarrow> outcome" where
  "andThen (Completed st) f = f st"
| "andThen (Rejected st) f = Rejected st"

text \<open>
  The body of \<^verbatim>\<open>if (fc.name === 'updateVisualFeedback')\<close>: publish the cue, replace the
  cue timer, register the response. \<open>feedbackDelay\<close> is the delay of the revision.
\<close>

definition feedbackDelay :: "variant \<Rightarrow> nat" where
  "feedbackDelay v = (case v of InterviewSession_tsx \<Rightarrow> 5000 | Part_001 \<Rightarrow> 4000)"

definition updateVisualFeedback :: "variant \<Rightarrow> FunctionCall \<Rightarrow> session \<Rightarrow> session" where
  "updateVisualFeedback v fc st =
     (let st1 = st\<lparr>visualFeedback := fc_args fc\<rparr>;
          st2 = clearFeedbackTimeout st1;
          h = nextHandle st2;
          st3 = st2\<lparr>calls := calls st2 @ [SetTimeout h (feedbackDelay v)],
                     nextHandle := h + 1,
                     feedbackTimeoutRef := Some h\<rparr>
      in st3\<lparr>sent := sent st3 @ [ToolResponse (fc_id fc) (fc_name fc) ''ok'']\<rparr>)"

text \<open>
  \<^verbatim>\<open>for (const fc of msg.toolCall.functionCalls)\<close>. In \<^verbatim>\<open>InterviewSession.tsx\<close> the
  arguments are destructured (\<^verbatim>\<open>const { cue, sentiment } = fc.args\<close>), which throws when
  \<^verbatim>\<open>fc.args\<close> is undefined; \<^verbatim>\<open>part_001\<close> passes \<^verbatim>\<open>fc.args\<close> on as it is.
\<close>

fun forFunctionCalls :: "variant \<Rightarrow> FunctionCall list \<Rightarrow> session \<Rightarrow> outcome" where
  "forFunctionCalls v [] st = Completed st"
| "forFunctionCalls v (fc # fcs) st =
     (if fc_name fc = Some ''updateVisualFeedback''
      then (if v = InterviewSession_tsx \<and> fc_args fc = None then Rejected st
            else forFunctionCalls v fcs (updateVisualFeedback v fc st))
      else forFunctionCalls v fcs st)"

text \<open>\<^verbatim>\<open>if (msg.toolCall) { ... }\<close>; iterating an undefined \<^verbatim>\<open>functionCalls\<close> throws.\<close>

definition onToolCall :: "variant \<Rightarrow> LiveServerMessage \<Rightarrow> session \<Rightarrow> outcome" where
  "onToolCall v msg st =
     (case toolCall msg of
        None \<Rightarrow> Completed st
      | Some tc \<Rightarrow>
          (case functionCalls tc of
             None \<Rightarrow> Rejected st
           | Some fcs \<Rightarrow> forFunctionCalls v fcs st))"

text \<open>The \<^verbatim>\<open>if / else if\<close> on the two transcriptions; only \<^verbatim>\<open>part_001\<close> mirrors the
  buffers into the \<open>partialTranscript\<close> state.\<close>

definition appendModel :: "variant \<Rightarrow> string \<Rightarrow> session \<Rightarrow> session" where
  "appendModel v t st =
     (let st1 = st\<lparr>transcriptionRef := (transcriptionRef st)\<lparr>model := model (transcriptionRef st) @ t\<rparr>\<rparr>
      in case v of
           InterviewSession_tsx \<Rightarrow> st1
         | Part_001 \<Rightarrow>
             st1\<lparr>partialTranscript := (partialTranscript st1)\<lparr>model := model (transcriptionRef st1)\<rparr>\<rparr>)"

definition appendUser :: "variant \<Rightarrow> string \<Rightarrow> session \<Rightarrow> session" where
  "appendUser v t st =
     (let st1 = st\<lparr>transcriptionRef := (transcriptionRef st)\<lparr>user := user (transcriptionRef st) @ t\<rparr>\<rparr>
      in case v of
           InterviewSession_tsx \<Rightarrow> st1
         | Part_001 \<Rightarrow>
             st1\<lparr>partialTranscript := (partialTranscript st1)\<lparr>user := user (transcriptionRef st1)\<rparr>\<rparr>)"

definition onTranscription :: "variant \<Rightarrow> LiveServerMessage \<Rightarrow> session \<Rightarrow> session" where
  "onTranscription v msg st =
     (case serverContent msg of
        None \<Rightarrow> st
      | Some sc \<Rightarrow>
          (case outputTranscription sc of
             Some t \<Rightarrow> appendModel v (toString_opt (transcription_text t)) st
           | None \<Rightarrow>
               (case inputTranscription sc of
                  Some t \<Rightarrow> appendUser v (toString_opt (transcription_text t)) st
                | None \<Rightarrow> st)))"

text \<open>\<^verbatim>\<open>if (msg.serverContent?.turnComplete) { ... }\<close>.\<close>

definition newTurns :: "string \<Rightarrow> string \<Rightarrow> TranscriptionTurn list" where
  "newTurns uText mText =
     (if uText \<noteq> [] then [\<lparr>role = User, turn_text = uText\<rparr>] else []) @
     (if mText \<noteq> [] then [\<lparr>role = Interviewer, turn_text = mText\<rparr>] else [])"

definition onTurnComplete :: "variant \<Rightarrow> LiveServerMessage \<Rightarrow> session \<Rightarrow> session" where
  "onTurnComplete v msg st =
     (case serverContent msg of
        None \<Rightarrow> st
      | Some sc \<Rightarrow>
          if turnComplete sc
          then (let uText = trim (user (transcriptionRef st));
                    mText = trim (model (transcriptionRef st));
                    st1 = (if uText \<noteq> [] \<or> mText \<noteq> []
                           then st\<lparr>currentTranscript := currentTranscript st @ newTurns uText mText\<rparr>
                           else st);
                    st2 = st1\<lparr>transcriptionRef := \<lparr>user = [], model = []\<rparr>\<rparr>
                in case v of
                     InterviewSession_tsx \<Rightarrow> st2
                   | Part_001 \<Rightarrow> st2\<lparr>partialTranscript := \<lparr>user = [], model = []\<rparr>\<rparr>)
          else st)"

text \<open>
  \<^verbatim>\<open>msg.serverContent?.modelTurn?.parts[0]?.inlineData?.data\<close>: the chain stops at an
  undefined \<open>serverContent\<close>, \<open>modelTurn\<close>, first part or \<open>inlineData\<close>, and indexing an
  undefined \<open>parts\<close> throws.
\<close>

datatype 'a js = TypeError | Value 'a

definition base64Audio :: "LiveServerMessage \<Rightarrow> string option js" where
  "base64Audio msg =
     (case serverContent msg of
        None \<Rightarrow> Value None
      | Some sc \<Rightarrow>
          (case modelTurn sc of
             None \<Rightarrow> Value None
           | Some c \<Rightarrow>
               (case parts c of
                  None \<Rightarrow> TypeError
                | Some [] \<Rightarrow> Value None
                | Some (p # _) \<Rightarrow>
                    (case inlineData p of
                       None \<Rightarrow> Value None
                     | Some b \<Rightarrow> Value (blob_data b)))))"

text \<open>
  The playback branch. \<^verbatim>\<open>decode\<close> and \<^verbatim>\<open>decodeAudioData\<close> come from
  \<^verbatim>\<open>services/audioUtils\<close>, which is not among the sources: \<open>decodeAudioData\<close> is a
  parameter giving the duration of the decoded buffer, or \<open>None\<close> when decoding throws.
  \<open>currentTime\<close> is the output context's clock when the handler reads it. The node is
  started with the buffer it plays, so the call records the buffer's duration too.
\<close>

definition onAudio ::
  "(string \<Rightarrow> real option) \<Rightarrow> real \<Rightarrow> LiveServerMessage \<Rightarrow> session \<Rightarrow> outcome" where
  "onAudio decodeAudioData currentTime msg st =
     (case base64Audio msg of
        TypeError \<Rightarrow> Rejected st
      | Value None \<Rightarrow> Completed st
      | Value (Some b) \<Rightarrow>
          if b = [] then Completed st
          else (let st1 = st\<lparr>nextStartTimeRef := max (nextStartTimeRef st) currentTime\<rparr>
                in case decodeAudioData b of
                     None \<Rightarrow> Rejected st1
                   | Some duration \<Rightarrow>
                       (let source = nextNode st1
                        in Completed
                             (st1\<lparr>nextNode := source + 1,
                                  calls := calls st1 @ [SourceStart source (nextStartTimeRef st1) duration],
                                  nextStartTimeRef := nextStartTimeRef st1 + duration,
                                  sourcesRef := sourcesRef st1 @ [source]\<rparr>))))"

text \<open>\<^verbatim>\<open>if (msg.serverContent?.interrupted) { ... }\<close>; the last two lines are in
  \<^verbatim>\<open>part_001\<close> only.\<close>

definition onInterrupted :: "variant \<Rightarrow> LiveServerMessage \<Rightarrow> session \<Rightarrow> session" where
  "onInterrupted v msg st =
     (case serverContent msg of
        None \<Rightarrow> st
      | Some sc \<Rightarrow>
          if interrupted sc
          then (let st1 = stopSources st
                in case v of
                     InterviewSession_tsx \<Rightarrow> st1
                   | Part_001 \<Rightarrow>
                       st1\<lparr>partialTranscript := (partialTranscript st1)\<lparr>model := []\<rparr>,
                           transcriptionRef := (transcriptionRef st1)\<lparr>model := []\<rparr>\<rparr>)
          else st)"

definition onmessage ::
  "variant \<Rightarrow> (string \<Rightarrow> real option) \<Rightarrow> real \<Rightarrow> LiveServerMessage \<Rightarrow> session \<Rightarrow> outcome" where
  "onmessage v decodeAudioData currentTime msg st =
     (if \<not> audioContextRef st then Completed st
      else andThen (andThen (onToolCall v msg st)
                            (\<lambda>st1. onAudio decodeAudioData currentTime msg
                                     (onTurnComplete v msg (onTranscription v msg st1))))
                   (\<lambda>st2. Completed (onInterrupted v msg st2)))"

text \<open>The \<^verbatim>\<open>ended\<close> listener of a source node: \<^verbatim>\<open>sourcesRef.current.delete(source)\<close>.\<close>

definition ended :: "nat \<Rightarrow> session \<Rightarrow> session" where
  "ended source st = st\<lparr>sourcesRef := removeAll source (sourcesRef st)\<rparr>"

text \<open>Inbound messages are handled one after the other, each with the clock it reads.\<close>

fun onmessages ::
  "variant \<Rightarrow> (string \<Rightarrow> real option) \<Rightarrow> (real \<times> LiveServerMessage) list \<Rightarrow> session \<Rightarrow> session" where
  "onmessages v decodeAudioData [] st = st"
| "onmessages v decodeAudioData ((currentTime, msg) # rest) st =
     onmessages v decodeAudioData rest (state_of (onmessage v decodeAudioData currentTime msg st))"

section \<open>Vocabulary of the properties\<close>

subsection \<open>Durations\<close>

text \<open>"Left-padded with zeros to two digits", and the number a string of decimal digits
  denotes.\<close>

definition zeroPad2 :: "string \<Rightarrow> string" where
  "zeroPad2 s = replicate (2 - length s) (CHR ''0'') @ s"

definition decimalValue :: "string \<Rightarrow> nat" where
  "decimalValue s = foldl (\<lambda>a c. 10 * a + (of_char c - 48)) 0 s"

definition isDigit :: "char \<Rightarrow> bool" where
  "isDigit c = (48 \<le> (of_char c :: nat) \<and> (of_char c :: nat) \<le> 57)"

subsection \<open>Playback\<close>

text \<open>The units handed to the output context, in order: start time and duration of every
  \<open>SourceStart\<close>; and the nodes stopped.\<close>

fun scheduled :: "call list \<Rightarrow> (real \<times> real) list" where
  "scheduled [] = []"
| "scheduled (SourceStart n s d # cs) = (s, d) # scheduled cs"
| "scheduled (c # cs) = scheduled cs"

fun stopped :: "call list \<Rightarrow> nat list" where
  "stopped [] = []"
| "stopped (SourceStop n # cs) = n # stopped cs"
| "stopped (c # cs) = stopped cs"

text \<open>The units scheduled between an earlier state and a later one.\<close>

definition newlyScheduled :: "session \<Rightarrow> session \<Rightarrow> (real \<times> real) list" where
  "newlyScheduled st st' = drop (length (scheduled (calls st))) (scheduled (calls st'))"

text \<open>No unit starts before the one scheduled before it has ended.\<close>

fun backToBack :: "(real \<times> real) list \<Rightarrow> bool" where
  "backToBack [] = True"
| "backToBack [u] = True"
| "backToBack ((s1, d1) # (s2, d2) # us) = (s1 + d1 \<le> s2 \<and> backToBack ((s2, d2) # us))"

subsection \<open>Kinds of message\<close>

definition isTurnComplete :: "LiveServerMessage \<Rightarrow> bool" where
  "isTurnComplete msg = (case serverContent msg of None \<Rightarrow> False | Some sc \<Rightarrow> turnComplete sc)"

definition isInterrupted :: "LiveServerMessage \<Rightarrow> bool" where
  "isInterrupted msg = (case serverContent msg of None \<Rightarrow> False | Some sc \<Rightarrow> interrupted sc)"

text \<open>The text a message adds to the agent's and to the user's buffer.\<close>

definition modelDelta :: "LiveServerMessage \<Rightarrow> string" where
  "modelDelta msg =
     (case serverContent msg of
        None \<Rightarrow> []
      | Some sc \<Rightarrow>
          (case outputTranscription sc of
             None \<Rightarrow> []
           | Some t \<Rightarrow> toString_opt (transcription_text t)))"

definition userDelta :: "LiveServerMessage \<Rightarrow> string" where
  "userDelta msg =
     (case serverContent msg of
        None \<Rightarrow> []
      | Some sc \<Rightarrow>
          (case outputTranscription sc of
             Some t \<Rightarrow> []
           | None \<Rightarrow>
               (case inputTranscription sc of
                  None \<Rightarrow> []
                | Some t \<Rightarrow> toString_opt (transcription_text t))))"

text \<open>A tool call that the loop of the given revision gets through: the list of calls is
  there and, for \<^verbatim>\<open>InterviewSession.tsx\<close>, every call to the declared tool has arguments.\<close>

definition declaredTool :: "FunctionCall \<Rightarrow> bool" where
  "declaredTool fc = (fc_name fc = Some ''updateVisualFeedback'')"

definition destructures :: "variant \<Rightarrow> FunctionCall \<Rightarrow> bool" where
  "destructures v fc = (case v of InterviewSession_tsx \<Rightarrow> fc_args fc \<noteq> None | Part_001 \<Rightarrow> True)"

definition toolCallRuns :: "variant \<Rightarrow> LiveServerMessage \<Rightarrow> bool" where
  "toolCallRuns v msg =
     (case toolCall msg of
        None \<Rightarrow> True
      | Some tc \<Rightarrow>
          (case functionCalls tc of
             None \<Rightarrow> False
           | Some fcs \<Rightarrow> list_all (destructures v) (filter declaredTool fcs)))"

text \<open>One acknowledgement for each call to the declared tool, in the order of the calls.\<close>

definition acknowledgements :: "FunctionCall list \<Rightarrow> outbound list" where
  "acknowledgements fcs =
     map (\<lambda>fc. ToolResponse (fc_id fc) (fc_name fc) ''ok'') (filter declaredTool fcs)"

subsection \<open>Teardown\<close>

text \<open>A handle that was cleared and set to \<^verbatim>\<open>null\<close> if it was truthy, and the calls one
  run of \<^verbatim>\<open>cleanup\<close> makes, in order.\<close>

definition unset :: "nat option \<Rightarrow> nat option" where
  "unset r = (if truthy r then None else r)"

definition releases :: "session \<Rightarrow> call list" where
  "releases st =
     (if sessionRef st then [SessionClose] else []) @
     (if audioContextRef st then [InputContextClose, OutputContextClose] else []) @
     (if truthy (frameIntervalRef st) then [ClearInterval (the (frameIntervalRef st))] else []) @
     (if truthy (timerIntervalRef st) then [ClearInterval (the (timerIntervalRef st))] else []) @
     (if truthy (feedbackTimeoutRef st) then [ClearTimeout (the (feedbackTimeoutRef st))] else []) @
     map SourceStop (sourcesRef st)"

subsection \<open>States and messages to run the handlers on\<close>

text \<open>The component as mounted (the initial values of its hooks, the two element refs
  attached), and as \<^verbatim>\<open>initializeSession\<close> and \<^verbatim>\<open>onopen\<close> leave it: contexts made, channel
  stored, both intervals running.\<close>

definition mounted :: session where
  "mounted =
     \<lparr>isReady = False, isListening = False, currentTranscript = [],
      partialTranscript = \<lparr>user = [], model = []\<rparr>, secondsElapsed = 0,
      visualFeedback = None, feedbackTimeoutRef = None, audioContextRef = False,
      sessionRef = False, nextStartTimeRef = 0, sourcesRef = [],
      transcriptionRef = \<lparr>user = [], model = []\<rparr>, videoRef = True, canvasRef = True,
      frameIntervalRef = None, timerIntervalRef = None, isMutedRef = False,
      sent = [], calls = [], nextHandle = 1, nextNode = 0, framesInFlight = 0\<rparr>"

definition opened :: session where
  "opened =
     mounted\<lparr>isReady := True, isListening := True, audioContextRef := True, sessionRef := True,
             frameIntervalRef := Some 1, timerIntervalRef := Some 2, nextHandle := 3\<rparr>"

definition noContent :: LiveServerContent where
  "noContent =
     \<lparr>outputTranscription = None, inputTranscription = None, turnComplete = False,
      modelTurn = None, interrupted = False\<rparr>"

definition contentMessage :: "LiveServerContent \<Rightarrow> LiveServerMessage" where
  "contentMessage sc = \<lparr>toolCall = None, serverContent = Some sc\<rparr>"

definition audioChunk :: "string \<Rightarrow> LiveServerMessage" where
  "audioChunk b =
     contentMessage
       (noContent\<lparr>modelTurn := Some \<lparr>parts = Some [\<lparr>inlineData = Some \<lparr>blob_data = Some b\<rparr>\<rparr>]\<rparr>\<rparr>)"

definition inputDelta :: "string \<Rightarrow> LiveServerMessage" where
  "inputDelta t = contentMessage (noContent\<lparr>inputTranscription := Some \<lparr>transcription_text = Some t\<rparr>\<rparr>)"

definition outputDelta :: "string \<Rightarrow> LiveServerMessage" where
  "outputDelta t = contentMessage (noContent\<lparr>outputTranscription := Some \<lparr>transcription_text = Some t\<rparr>\<rparr>)"

definition bothDeltas :: "string \<Rightarrow> string \<Rightarrow> LiveServerMessage" where
  "bothDeltas out inp =
     contentMessage (noContent\<lparr>outputTranscription := Some \<lparr>transcription_text = Some out\<rparr>,
                               inputTranscription := Some \<lparr>transcription_text = Some inp\<rparr>\<rparr>)"

definition turnBoundary :: LiveServerMessage where
  "turnBoundary = contentMessage (noContent\<lparr>turnComplete := True\<rparr>)"

definition interruption :: LiveServerMessage where
  "interruption = contentMessage (noContent\<lparr>interrupted := True\<rparr>)"

definition cueCall :: FunctionCall where
  "cueCall =
     \<lparr>fc_id = Some ''call-1'', fc_name = Some ''updateVisualFeedback'',
      fc_args = Some \<lparr>cue = Some ''Good eye contact'', sentiment = Some ''positive''\<rparr>\<rparr>"

definition toolInvocation :: "FunctionCall list \<Rightarrow> LiveServerMessage" where
  "toolInvocation fcs = \<lparr>toolCall = Some \<lparr>functionCalls = Some fcs\<rparr>, serverContent = None\<rparr>"

text \<open>A decoder for the runs: every chunk decodes to half a second, but the chunk
  \<open>''!''\<close>, which does not decode.\<close>

definition halfSecond :: "string \<Rightarrow> real option" where
  "halfSecond b = (if b = ''!'' then None else Some (1 / 2))"

section \<open>Proofs\<close>

subsection \<open>Durations\<close>

lemma padStart_zeroPad2: "padStart 2 (CHR ''0'') s = zeroPad2 s"
  by (simp add: padStart_def zeroPad2_def)

lemma of_char_digit: "d < 10 \<Longrightarrow> (of_char (digit d) :: nat) = 48 + d"
  by (simp add: digit_def)

lemma decimalValue_snoc: "decimalValue (s @ [c]) = 10 * decimalValue s + (of_char c - 48)"
  by (simp add: decimalValue_def)

lemma decimalValue_toString: "decimalValue (toString n) = n"
proof (induction n rule: toString.induct)
  case (1 n)
  show ?case
  proof (cases "n < 10")
    case True
    then show ?thesis by (simp add: toString.simps [of n] decimalValue_def of_char_digit)
  next
    case False
    with 1 show ?thesis
      by (simp add: toString.simps [of n] decimalValue_snoc of_char_digit)
  qed
qed

lemma decimalValue_zeros: "decimalValue (replicate k (CHR ''0'') @ s) = decimalValue s"
  by (induction k) (simp_all add: decimalValue_def)

lemma decimalValue_zeroPad2: "decimalValue (zeroPad2 (toString n)) = n"
  by (simp add: zeroPad2_def decimalValue_zeros decimalValue_toString)

lemma length_toString_pos: "0 < length (toString n)"
  by (subst toString.simps) simp

lemma length_toString_lt100:
  assumes "n < 100"
  shows "length (toString n) \<le> 2"
proof -
  from assms have "n div 10 < 10" by simp
  then have "toString (n div 10) = [digit (n div 10)]" by (simp add: toString.simps [of "n div 10"])
  then show ?thesis by (simp add: toString.simps [of n])
qed

lemma digits_toString: "list_all isDigit (toString n)"
proof (induction n rule: toString.induct)
  case (1 n)
  show ?case
  proof (cases "n < 10")
    case True
    then show ?thesis by (simp add: toString.simps [of n] isDigit_def of_char_digit)
  next
    case False
    with 1 show ?thesis
      by (simp add: toString.simps [of n] isDigit_def of_char_digit)
  qed
qed

lemma digits_zeroPad2: "list_all isDigit (zeroPad2 (toString n))"
  using digits_toString [of n] by (auto simp add: zeroPad2_def isDigit_def list_all_iff)

lemma length_seconds: "length (zeroPad2 (toString (n mod 60))) = 2"
proof -
  have "n mod 60 < 100" by (rule less_trans [of _ 60]) simp_all
  then have "length (toString (n mod 60)) \<le> 2" by (rule length_toString_lt100)
  moreover have "0 < length (toString (n mod 60))" by (rule length_toString_pos)
  ultimately show ?thesis by (simp add: zeroPad2_def)
qed

lemma length_minutes: "2 \<le> length (zeroPad2 s)"
  by (simp add: zeroPad2_def)

lemma formatTime_zeroPad2:
  "formatTime n = zeroPad2 (toString (n div 60)) @ '':'' @ zeroPad2 (toString (n mod 60))"
  by (simp add: formatTime_def padStart_zeroPad2)

text \<open>
  Claim C9. \<^verbatim>\<open>handleFinish\<close> returns the turn history as it stands together with the
  elapsed seconds formatted as minutes, a colon and seconds: the minutes are the decimal
  digits of \<open>n div 60\<close> left-padded with zeros to two digits (longer from a hundred
  minutes on), the seconds the decimal digits of \<open>n mod 60\<close> left-padded to exactly two.
\<close>

theorem handleFinish_history_and_duration:
  "fst (handleFinish st) = currentTranscript st \<and>
   snd (handleFinish st) =
     zeroPad2 (toString (secondsElapsed st div 60)) @ '':'' @
     zeroPad2 (toString (secondsElapsed st mod 60)) \<and>
   list_all isDigit (zeroPad2 (toString (secondsElapsed st div 60))) \<and>
   list_all isDigit (zeroPad2 (toString (secondsElapsed st mod 60))) \<and>
   decimalValue (zeroPad2 (toString (secondsElapsed st div 60))) = secondsElapsed st div 60 \<and>
   decimalValue (zeroPad2 (toString (secondsElapsed st mod 60))) = secondsElapsed st mod 60 \<and>
   2 \<le> length (zeroPad2 (toString (secondsElapsed st div 60))) \<and>
   length (zeroPad2 (toString (secondsElapsed st mod 60))) = 2"
  by (simp add: handleFinish_def formatTime_zeroPad2 digits_zeroPad2 decimalValue_zeroPad2
      length_seconds length_minutes)

lemma handleFinish_example: "handleFinish (mounted\<lparr>secondsElapsed := 754\<rparr>) = ([], ''12:34'')"
  by code_simp

subsection \<open>Capture\<close>

text \<open>
  Claim C7. While \<open>isMutedRef\<close> is set, the audio-block callback returns before encoding:
  the state is unchanged and nothing is added to what the channel was sent.
\<close>

theorem onaudioprocess_muted:
  "isMutedRef st \<Longrightarrow>
     onaudioprocess createPcmBlob inputData st = st \<and>
     sent (onaudioprocess createPcmBlob inputData st) = sent st"
  by (simp add: onaudioprocess_def)

theorem onaudioprocess_muted_witness:
  "isMutedRef (opened\<lparr>isMutedRef := True\<rparr>) \<and>
   sent (onaudioprocess (\<lambda>samples :: int list. ''pcm'') [0, 1, 2] (opened\<lparr>isMutedRef := True\<rparr>)) = [] \<and>
   sent (onaudioprocess (\<lambda>samples :: int list. ''pcm'') [0, 1, 2] opened) = [RealtimeAudio ''pcm'']"
proof -
  have m: "isMutedRef (opened\<lparr>isMutedRef := True\<rparr>)" by simp
  have "sent (opened\<lparr>isMutedRef := True\<rparr>) = []" by (simp add: opened_def mounted_def)
  moreover have "sent (onaudioprocess (\<lambda>samples :: int list. ''pcm'') [0, 1, 2] opened) = [RealtimeAudio ''pcm'']"
    by (simp add: onaudioprocess_def opened_def mounted_def)
  ultimately show ?thesis
    using m onaudioprocess_muted [OF m, of "\<lambda>samples :: int list. ''pcm''" "[0, 1, 2]"] by simp
qed

subsection \<open>What each branch of the message handler leaves alone\<close>

lemma scheduled_append: "scheduled (cs @ cs') = scheduled cs @ scheduled cs'"
  by (induction cs rule: scheduled.induct) simp_all

lemma stopped_append: "stopped (cs @ cs') = stopped cs @ stopped cs'"
  by (induction cs rule: stopped.induct) simp_all

lemma scheduled_stops: "scheduled (map SourceStop ns) = []"
  by (induction ns) simp_all

lemma stopped_stops: "stopped (map SourceStop ns) = ns"
  by (induction ns) simp_all

lemma clearFeedbackTimeout_frame:
  "transcriptionRef (clearFeedbackTimeout st) = transcriptionRef st"
  "partialTranscript (clearFeedbackTimeout st) = partialTranscript st"
  "currentTranscript (clearFeedbackTimeout st) = currentTranscript st"
  "nextStartTimeRef (clearFeedbackTimeout st) = nextStartTimeRef st"
  "sourcesRef (clearFeedbackTimeout st) = sourcesRef st"
  "audioContextRef (clearFeedbackTimeout st) = audioContextRef st"
  "nextNode (clearFeedbackTimeout st) = nextNode st"
  "nextHandle (clearFeedbackTimeout st) = nextHandle st"
  "sent (clearFeedbackTimeout st) = sent st"
  "scheduled (calls (clearFeedbackTimeout st)) = scheduled (calls st)"
  "stopped (calls (clearFeedbackTimeout st)) = stopped (calls st)"
  by (simp_all add: clearFeedbackTimeout_def scheduled_append stopped_append)

lemma updateVisualFeedback_frame:
  "transcriptionRef (updateVisualFeedback v fc st) = transcriptionRef st"
  "partialTranscript (updateVisualFeedback v fc st) = partialTranscript st"
  "currentTranscript (updateVisualFeedback v fc st) = currentTranscript st"
  "nextStartTimeRef (updateVisualFeedback v fc st) = nextStartTimeRef st"
  "sourcesRef (updateVisualFeedback v fc st) = sourcesRef st"
  "audioContextRef (updateVisualFeedback v fc st) = audioContextRef st"
  "nextNode (updateVisualFeedback v fc st) = nextNode st"
  "scheduled (calls (updateVisualFeedback v fc st)) = scheduled (calls st)"
  "stopped (calls (updateVisualFeedback v fc st)) = stopped (calls st)"
  by (simp_all add: updateVisualFeedback_def Let_def clearFeedbackTimeout_frame
      scheduled_append stopped_append)

lemma updateVisualFeedback_sent:
  "sent (updateVisualFeedback v fc st) = sent st @ [ToolResponse (fc_id fc) (fc_name fc) ''ok'']"
  by (simp add: updateVisualFeedback_def Let_def clearFeedbackTimeout_frame)

lemma forFunctionCalls_preserves:
  assumes "\<And>fc st. f (updateVisualFeedback v fc st) = f st"
  shows "f (state_of (forFunctionCalls v fcs st)) = f st"
proof (induction fcs arbitrary: st)
  case Nil
  show ?case by simp
next
  case (Cons fc fcs)
  show ?case by (simp add: Cons.IH assms)
qed

lemma forFunctionCalls_frame:
  "transcriptionRef (state_of (forFunctionCalls v fcs st)) = transcriptionRef st"
  "partialTranscript (state_of (forFunctionCalls v fcs st)) = partialTranscript st"
  "currentTranscript (state_of (forFunctionCalls v fcs st)) = currentTranscript st"
  "nextStartTimeRef (state_of (forFunctionCalls v fcs st)) = nextStartTimeRef st"
  "sourcesRef (state_of (forFunctionCalls v fcs st)) = sourcesRef st"
  "audioContextRef (state_of (forFunctionCalls v fcs st)) = audioContextRef st"
  "nextNode (state_of (forFunctionCalls v fcs st)) = nextNode st"
  "scheduled (calls (state_of (forFunctionCalls v fcs st))) = scheduled (calls st)"
  "stopped (calls (state_of (forFunctionCalls v fcs st))) = stopped (calls st)"
proof -
  show "transcriptionRef (state_of (forFunctionCalls v fcs st)) = transcriptionRef st"
    by (rule forFunctionCalls_preserves) (rule updateVisualFeedback_frame)
  show "partialTranscript (state_of (forFunctionCalls v fcs st)) = partialTranscript st"
    by (rule forFunctionCalls_preserves) (rule updateVisualFeedback_frame)
  show "currentTranscript (state_of (forFunctionCalls v fcs st)) = currentTranscript st"
    by (rule forFunctionCalls_preserves) (rule updateVisualFeedback_frame)
  show "nextStartTimeRef (state_of (forFunctionCalls v fcs st)) = nextStartTimeRef st"
    by (rule forFunctionCalls_preserves) (rule updateVisualFeedback_frame)
  show "sourcesRef (state_of (forFunctionCalls v fcs st)) = sourcesRef st"
    by (rule forFunctionCalls_preserves) (rule updateVisualFeedback_frame)
  show "audioContextRef (state_of (forFunctionCalls v fcs st)) = audioContextRef st"
    by (rule forFunctionCalls_preserves) (rule updateVisualFeedback_frame)
  show "nextNode (state_of (forFunctionCalls v fcs st)) = nextNode st"
    by (rule forFunctionCalls_preserves) (rule updateVisualFeedback_frame)
  show "scheduled (calls (state_of (forFunctionCalls v fcs st))) = scheduled (calls st)"
    by (rule forFunctionCalls_preserves [where f = "\<lambda>s. scheduled (calls s)"])
      (rule updateVisualFeedback_frame)
  show "stopped (calls (state_of (forFunctionCalls v fcs st))) = stopped (calls st)"
    by (rule forFunctionCalls_preserves [where f = "\<lambda>s. stopped (calls s)"])
      (rule updateVisualFeedback_frame)
qed

lemma onToolCall_frame:
  "transcriptionRef (state_of (onToolCall v msg st)) = transcriptionRef st"
  "partialTranscript (state_of (onToolCall v msg st)) = partialTranscript st"
  "currentTranscript (state_of (onToolCall v msg st)) = currentTranscript st"
  "nextStartTimeRef (state_of (onToolCall v msg st)) = nextStartTimeRef st"
  "sourcesRef (state_of (onToolCall v msg st)) = sourcesRef st"
  "audioContextRef (state_of (onToolCall v msg st)) = audioContextRef st"
  "nextNode (state_of (onToolCall v msg st)) = nextNode st"
  "scheduled (calls (state_of (onToolCall v msg st))) = scheduled (calls st)"
  "stopped (calls (state_of (onToolCall v msg st))) = stopped (calls st)"
  by (simp_all add: onToolCall_def forFunctionCalls_frame split: option.split)

lemma forFunctionCalls_runs:
  assumes "list_all (destructures v) (filter declaredTool fcs)"
  shows "completed (forFunctionCalls v fcs st)"
    and "sent (state_of (forFunctionCalls v fcs st)) = sent st @ acknowledgements fcs"
  using assms
proof (induction fcs arbitrary: st)
  case Nil
  {
    case 1
    show ?case by simp
  next
    case 2
    show ?case by (simp add: acknowledgements_def)
  }
next
  case (Cons fc fcs)
  {
    case 1
    show ?case
    proof (cases "declaredTool fc")
      case True
      with 1 have d: "destructures v fc"
        and rest: "list_all (destructures v) (filter declaredTool fcs)"
        by simp_all
      from d have go: "\<not> (v = InterviewSession_tsx \<and> fc_args fc = None)"
        by (cases v) (simp_all add: destructures_def)
      from True have name: "fc_name fc = Some ''updateVisualFeedback''"
        by (simp add: declaredTool_def)
      from Cons.IH(1) [OF rest] go name show ?thesis by simp
    next
      case False
      with 1 have rest: "list_all (destructures v) (filter declaredTool fcs)" by simp
      from False have name: "fc_name fc \<noteq> Some ''updateVisualFeedback''"
        by (simp add: declaredTool_def)
      from Cons.IH(1) [OF rest] name show ?thesis by simp
    qed
  next
    case 2
    show ?case
    proof (cases "declaredTool fc")
      case True
      with 2 have d: "destructures v fc"
        and rest: "list_all (destructures v) (filter declaredTool fcs)"
        by simp_all
      from d have go: "\<not> (v = InterviewSession_tsx \<and> fc_args fc = None)"
        by (cases v) (simp_all add: destructures_def)
      from True have name: "fc_name fc = Some ''updateVisualFeedback''"
        by (simp add: declaredTool_def)
      from Cons.IH(2) [OF rest, of "updateVisualFeedback v fc st"] go name True show ?thesis
        by (simp add: updateVisualFeedback_sent acknowledgements_def)
    next
      case False
      with 2 have rest: "list_all (destructures v) (filter declaredTool fcs)" by simp
      from False have name: "fc_name fc \<noteq> Some ''updateVisualFeedback''"
        by (simp add: declaredTool_def)
      from Cons.IH(2) [OF rest, of st] name False show ?thesis
        by (simp add: acknowledgements_def)
    qed
  }
qed

lemma onToolCall_runs:
  assumes "toolCallRuns v msg"
  shows "completed (onToolCall v msg st)"
proof (cases "toolCall msg")
  case None
  then show ?thesis by (simp add: onToolCall_def)
next
  case (Some tc)
  with assms obtain fcs where fcs: "functionCalls tc = Some fcs"
    "list_all (destructures v) (filter declaredTool fcs)"
    by (cases "functionCalls tc") (simp_all add: toolCallRuns_def)
  from fcs(2) have "completed (forFunctionCalls v fcs st)" by (rule forFunctionCalls_runs)
  with Some fcs(1) show ?thesis by (simp add: onToolCall_def)
qed

lemma completed_state_of: "completed oc \<Longrightarrow> oc = Completed (state_of oc)"
  by (cases oc) simp_all

lemma onTranscription_frame:
  "currentTranscript (onTranscription v msg st) = currentTranscript st"
  "nextStartTimeRef (onTranscription v msg st) = nextStartTimeRef st"
  "sourcesRef (onTranscription v msg st) = sourcesRef st"
  "audioContextRef (onTranscription v msg st) = audioContextRef st"
  "nextNode (onTranscription v msg st) = nextNode st"
  "sent (onTranscription v msg st) = sent st"
  "calls (onTranscription v msg st) = calls st"
  by (cases v; simp add: onTranscription_def appendModel_def appendUser_def Let_def
      split: option.split)+

lemma onTranscription_buffers:
  "transcriptionRef (onTranscription v msg st) =
     \<lparr>user = user (transcriptionRef st) @ userDelta msg,
      model = model (transcriptionRef st) @ modelDelta msg\<rparr>"
  by (cases v; simp add: onTranscription_def appendModel_def appendUser_def Let_def userDelta_def
      modelDelta_def split: option.split)

lemma onTurnComplete_frame:
  "nextStartTimeRef (onTurnComplete v msg st) = nextStartTimeRef st"
  "sourcesRef (onTurnComplete v msg st) = sourcesRef st"
  "audioContextRef (onTurnComplete v msg st) = audioContextRef st"
  "nextNode (onTurnComplete v msg st) = nextNode st"
  "sent (onTurnComplete v msg st) = sent st"
  "calls (onTurnComplete v msg st) = calls st"
  by (cases v; simp add: onTurnComplete_def Let_def split: option.split)+

lemma onTurnComplete_none:
  "\<not> isTurnComplete msg \<Longrightarrow> onTurnComplete v msg st = st"
  by (cases "serverContent msg") (simp_all add: onTurnComplete_def isTurnComplete_def)

lemma onTurnComplete_flush:
  assumes "isTurnComplete msg"
  shows "currentTranscript (onTurnComplete v msg st) =
       currentTranscript st @
       newTurns (trim (user (transcriptionRef st))) (trim (model (transcriptionRef st)))"
    and "transcriptionRef (onTurnComplete v msg st) = \<lparr>user = [], model = []\<rparr>"
proof -
  from assms obtain sc where sc: "serverContent msg = Some sc" "turnComplete sc"
    by (cases "serverContent msg") (simp_all add: isTurnComplete_def)
  show "currentTranscript (onTurnComplete v msg st) =
       currentTranscript st @
       newTurns (trim (user (transcriptionRef st))) (trim (model (transcriptionRef st)))"
    using sc by (cases v) (simp_all add: onTurnComplete_def Let_def newTurns_def)
  show "transcriptionRef (onTurnComplete v msg st) = \<lparr>user = [], model = []\<rparr>"
    using sc by (cases v) (simp_all add: onTurnComplete_def Let_def)
qed

lemma onAudio_frame:
  "transcriptionRef (state_of (onAudio dec now msg st)) = transcriptionRef st"
  "partialTranscript (state_of (onAudio dec now msg st)) = partialTranscript st"
  "currentTranscript (state_of (onAudio dec now msg st)) = currentTranscript st"
  "audioContextRef (state_of (onAudio dec now msg st)) = audioContextRef st"
  "sent (state_of (onAudio dec now msg st)) = sent st"
  "stopped (calls (state_of (onAudio dec now msg st))) = stopped (calls st)"
  by (simp_all add: onAudio_def Let_def stopped_append split: js.split option.split)

lemma onInterrupted_frame:
  "currentTranscript (onInterrupted v msg st) = currentTranscript st"
  "audioContextRef (onInterrupted v msg st) = audioContextRef st"
  "sent (onInterrupted v msg st) = sent st"
  "nextNode (onInterrupted v msg st) = nextNode st"
  "user (transcriptionRef (onInterrupted v msg st)) = user (transcriptionRef st)"
  "scheduled (calls (onInterrupted v msg st)) = scheduled (calls st)"
  by (cases v; simp add: onInterrupted_def stopSources_def Let_def scheduled_append
      scheduled_stops split: option.split)+

lemma onInterrupted_none:
  "\<not> isInterrupted msg \<Longrightarrow> onInterrupted v msg st = st"
  by (cases "serverContent msg") (simp_all add: onInterrupted_def isInterrupted_def)

lemma onInterrupted_stops:
  assumes "isInterrupted msg"
  shows "sourcesRef (onInterrupted v msg st) = []"
    and "nextStartTimeRef (onInterrupted v msg st) = 0"
    and "stopped (calls (onInterrupted v msg st)) = stopped (calls st) @ sourcesRef st"
    and "model (transcriptionRef (onInterrupted v msg st)) =
           (case v of InterviewSession_tsx \<Rightarrow> model (transcriptionRef st) | Part_001 \<Rightarrow> [])"
proof -
  from assms obtain sc where sc: "serverContent msg = Some sc" "interrupted sc"
    by (cases "serverContent msg") (simp_all add: isInterrupted_def)
  show "sourcesRef (onInterrupted v msg st) = []"
    using sc by (cases v) (simp_all add: onInterrupted_def stopSources_def Let_def)
  show "nextStartTimeRef (onInterrupted v msg st) = 0"
    using sc by (cases v) (simp_all add: onInterrupted_def stopSources_def Let_def)
  show "stopped (calls (onInterrupted v msg st)) = stopped (calls st) @ sourcesRef st"
    using sc by (cases v)
      (simp_all add: onInterrupted_def stopSources_def Let_def stopped_append stopped_stops)
  show "model (transcriptionRef (onInterrupted v msg st)) =
           (case v of InterviewSession_tsx \<Rightarrow> model (transcriptionRef st) | Part_001 \<Rightarrow> [])"
    using sc by (cases v) (simp_all add: onInterrupted_def stopSources_def Let_def)
qed

text \<open>The handler with the audio contexts in place, as one case distinction on the playback
  branch.\<close>

lemma onmessage_runs:
  assumes "audioContextRef st" and "toolCallRuns v msg"
  shows "state_of (onmessage v dec now msg st) =
     (case onAudio dec now msg
             (onTurnComplete v msg (onTranscription v msg (state_of (onToolCall v msg st)))) of
        Completed st' \<Rightarrow> onInterrupted v msg st'
      | Rejected st' \<Rightarrow> st')"
proof -
  from assms(2) have "completed (onToolCall v msg st)" by (rule onToolCall_runs)
  then obtain st1 where st1: "onToolCall v msg st = Completed st1"
    by (cases "onToolCall v msg st") simp_all
  show ?thesis
    using assms(1) st1
    by (cases "onAudio dec now msg (onTurnComplete v msg (onTranscription v msg st1))")
      (simp_all add: onmessage_def)
qed

lemma onmessage_audioContextRef:
  "audioContextRef (state_of (onmessage v dec now msg st)) = audioContextRef st"
proof (cases "audioContextRef st")
  case False
  then show ?thesis by (simp add: onmessage_def)
next
  case True
  show ?thesis
  proof (cases "onToolCall v msg st")
    case (Rejected st1)
    then have "audioContextRef st1 = audioContextRef st"
      using onToolCall_frame(6) [of v msg st] by simp
    with Rejected True show ?thesis by (simp add: onmessage_def)
  next
    case (Completed st1)
    then have a: "audioContextRef st1 = audioContextRef st"
      using onToolCall_frame(6) [of v msg st] by simp
    let ?st3 = "onTurnComplete v msg (onTranscription v msg st1)"
    have b: "audioContextRef (state_of (onAudio dec now msg ?st3)) = audioContextRef st"
      using a by (simp add: onAudio_frame onTurnComplete_frame onTranscription_frame)
    show ?thesis
    proof (cases "onAudio dec now msg ?st3")
      case (Completed st4)
      with b have "audioContextRef st4 = audioContextRef st" by simp
      with Completed \<open>onToolCall v msg st = Completed st1\<close> True show ?thesis
        by (simp add: onmessage_def onInterrupted_frame)
    next
      case (Rejected st4)
      with b have "audioContextRef st4 = audioContextRef st" by simp
      with Rejected \<open>onToolCall v msg st = Completed st1\<close> True show ?thesis
        by (simp add: onmessage_def)
    qed
  qed
qed

subsection \<open>The transcript buffers across one message\<close>

lemma onmessage_user:
  assumes "audioContextRef st" and "toolCallRuns v msg" and "\<not> isTurnComplete msg"
  shows "user (transcriptionRef (state_of (onmessage v dec now msg st))) =
           user (transcriptionRef st) @ userDelta msg"
proof -
  let ?st1 = "state_of (onToolCall v msg st)"
  let ?st3 = "onTurnComplete v msg (onTranscription v msg ?st1)"
  have st3: "user (transcriptionRef ?st3) = user (transcriptionRef st) @ userDelta msg"
    using assms(3) by (simp add: onTurnComplete_none onTranscription_buffers onToolCall_frame)
  have au: "transcriptionRef (state_of (onAudio dec now msg ?st3)) = transcriptionRef ?st3"
    by (rule onAudio_frame)
  show ?thesis
  proof (cases "onAudio dec now msg ?st3")
    case (Completed st4)
    with au have "transcriptionRef st4 = transcriptionRef ?st3" by simp
    with st3 Completed show ?thesis
      by (simp add: onmessage_runs [OF assms(1,2)] onInterrupted_frame)
  next
    case (Rejected st4)
    with au have "transcriptionRef st4 = transcriptionRef ?st3" by simp
    with st3 Rejected show ?thesis
      by (simp add: onmessage_runs [OF assms(1,2)])
  qed
qed

lemma onmessage_model:
  assumes "audioContextRef st" and "toolCallRuns v msg" and "\<not> isTurnComplete msg"
    and "v = InterviewSession_tsx \<or> \<not> isInterrupted msg"
  shows "model (transcriptionRef (state_of (onmessage v dec now msg st))) =
           model (transcriptionRef st) @ modelDelta msg"
proof -
  let ?st1 = "state_of (onToolCall v msg st)"
  let ?st3 = "onTurnComplete v msg (onTranscription v msg ?st1)"
  have st3: "model (transcriptionRef ?st3) = model (transcriptionRef st) @ modelDelta msg"
    using assms(3) by (simp add: onTurnComplete_none onTranscription_buffers onToolCall_frame)
  have au: "transcriptionRef (state_of (onAudio dec now msg ?st3)) = transcriptionRef ?st3"
    by (rule onAudio_frame)
  show ?thesis
  proof (cases "onAudio dec now msg ?st3")
    case (Completed st4)
    with au have eq: "transcriptionRef st4 = transcriptionRef ?st3" by simp
    have "model (transcriptionRef (onInterrupted v msg st4)) = model (transcriptionRef st4)"
    proof (cases "isInterrupted msg")
      case True
      with assms(4) have "v = InterviewSession_tsx" by simp
      with onInterrupted_stops(4) [OF True, of v st4] show ?thesis by simp
    next
      case False
      then show ?thesis by (simp add: onInterrupted_none)
    qed
    with eq st3 Completed show ?thesis
      by (simp add: onmessage_runs [OF assms(1,2)])
  next
    case (Rejected st4)
    with au have "transcriptionRef st4 = transcriptionRef ?st3" by simp
    with st3 Rejected show ?thesis
      by (simp add: onmessage_runs [OF assms(1,2)])
  qed
qed

lemma onmessage_history_kept:
  assumes "\<not> isTurnComplete msg"
  shows "currentTranscript (state_of (onmessage v dec now msg st)) = currentTranscript st"
proof (cases "audioContextRef st")
  case False
  then show ?thesis by (simp add: onmessage_def)
next
  case True
  show ?thesis
  proof (cases "onToolCall v msg st")
    case (Rejected st1)
    then have "currentTranscript st1 = currentTranscript st"
      using onToolCall_frame(3) [of v msg st] by simp
    with Rejected True show ?thesis by (simp add: onmessage_def)
  next
    case (Completed st1)
    then have a: "currentTranscript st1 = currentTranscript st"
      using onToolCall_frame(3) [of v msg st] by simp
    let ?st3 = "onTurnComplete v msg (onTranscription v msg st1)"
    have b: "currentTranscript (state_of (onAudio dec now msg ?st3)) = currentTranscript st"
      using a assms by (simp add: onAudio_frame onTurnComplete_none onTranscription_frame)
    show ?thesis
    proof (cases "onAudio dec now msg ?st3")
      case (Completed st4)
      with b have "currentTranscript st4 = currentTranscript st" by simp
      with Completed \<open>onToolCall v msg st = Completed st1\<close> True show ?thesis
        by (simp add: onmessage_def onInterrupted_frame)
    next
      case (Rejected st4)
      with b have "currentTranscript st4 = currentTranscript st" by simp
      with Rejected \<open>onToolCall v msg st = Completed st1\<close> True show ?thesis
        by (simp add: onmessage_def)
    qed
  qed
qed

lemma onmessage_turnComplete:
  assumes "audioContextRef st" and "toolCallRuns v msg" and "isTurnComplete msg"
  shows "currentTranscript (state_of (onmessage v dec now msg st)) =
           currentTranscript st @
           newTurns (trim (user (transcriptionRef st) @ userDelta msg))
                    (trim (model (transcriptionRef st) @ modelDelta msg))"
    and "transcriptionRef (state_of (onmessage v dec now msg st)) = \<lparr>user = [], model = []\<rparr>"
proof -
  let ?st1 = "state_of (onToolCall v msg st)"
  let ?st2 = "onTranscription v msg ?st1"
  let ?st3 = "onTurnComplete v msg ?st2"
  have h: "currentTranscript ?st3 =
           currentTranscript st @
           newTurns (trim (user (transcriptionRef st) @ userDelta msg))
                    (trim (model (transcriptionRef st) @ modelDelta msg))"
    by (simp add: onTurnComplete_flush(1) [OF assms(3)] onTranscription_buffers
        onTranscription_frame onToolCall_frame)
  have t: "transcriptionRef ?st3 = \<lparr>user = [], model = []\<rparr>"
    by (rule onTurnComplete_flush(2) [OF assms(3)])
  have au: "transcriptionRef (state_of (onAudio dec now msg ?st3)) = transcriptionRef ?st3"
    "currentTranscript (state_of (onAudio dec now msg ?st3)) = currentTranscript ?st3"
    by (rule onAudio_frame)+
  show "currentTranscript (state_of (onmessage v dec now msg st)) =
           currentTranscript st @
           newTurns (trim (user (transcriptionRef st) @ userDelta msg))
                    (trim (model (transcriptionRef st) @ modelDelta msg))"
  proof (cases "onAudio dec now msg ?st3")
    case (Completed st4)
    with au(2) h show ?thesis
      by (simp add: onmessage_runs [OF assms(1,2)] onInterrupted_frame)
  next
    case (Rejected st4)
    with au(2) h show ?thesis
      by (simp add: onmessage_runs [OF assms(1,2)])
  qed
  show "transcriptionRef (state_of (onmessage v dec now msg st)) = \<lparr>user = [], model = []\<rparr>"
  proof (cases "onAudio dec now msg ?st3")
    case (Completed st4)
    with au(1) t have e: "transcriptionRef st4 = \<lparr>user = [], model = []\<rparr>" by simp
    have "transcriptionRef (onInterrupted v msg st4) = \<lparr>user = [], model = []\<rparr>"
    proof (cases "isInterrupted msg")
      case True
      have "user (transcriptionRef (onInterrupted v msg st4)) = []"
        using e by (simp add: onInterrupted_frame)
      moreover have "model (transcriptionRef (onInterrupted v msg st4)) = []"
        using e onInterrupted_stops(4) [OF True, of v st4] by (cases v) simp_all
      ultimately show ?thesis by (cases "transcriptionRef (onInterrupted v msg st4)") simp
    next
      case False
      with e show ?thesis by (simp add: onInterrupted_none)
    qed
    with Completed show ?thesis
      by (simp add: onmessage_runs [OF assms(1,2)])
  next
    case (Rejected st4)
    with au(1) t show ?thesis
      by (simp add: onmessage_runs [OF assms(1,2)])
  qed
qed

text \<open>
  Claim C10. A message that carries both an output (agent) and an input (user) transcription
  adds the agent's text to the agent's buffer and leaves the user's buffer as it was: the
  input transcription is behind the \<^verbatim>\<open>else\<close>. This holds for the transcription branch
  on any state, and for the whole handler when the audio contexts exist, the tool-call loop
  runs through and the message is neither a turn boundary nor an interruption.
\<close>

theorem both_transcriptions_agent_only:
  assumes "serverContent msg = Some sc"
    and "outputTranscription sc = Some out"
    and "inputTranscription sc = Some inp"
  shows "transcriptionRef (onTranscription v msg st) =
           \<lparr>user = user (transcriptionRef st),
            model = model (transcriptionRef st) @ toString_opt (transcription_text out)\<rparr> \<and>
         (audioContextRef st \<and> toolCallRuns v msg \<and> \<not> turnComplete sc \<and> \<not> interrupted sc \<longrightarrow>
            transcriptionRef (state_of (onmessage v dec now msg st)) =
              \<lparr>user = user (transcriptionRef st),
               model = model (transcriptionRef st) @ toString_opt (transcription_text out)\<rparr>)"
proof -
  from assms have u: "userDelta msg = []"
    and m: "modelDelta msg = toString_opt (transcription_text out)"
    by (simp_all add: userDelta_def modelDelta_def)
  have one: "transcriptionRef (onTranscription v msg st) =
           \<lparr>user = user (transcriptionRef st),
            model = model (transcriptionRef st) @ toString_opt (transcription_text out)\<rparr>"
    by (simp add: onTranscription_buffers u m)
  have two: "transcriptionRef (state_of (onmessage v dec now msg st)) =
              \<lparr>user = user (transcriptionRef st),
               model = model (transcriptionRef st) @ toString_opt (transcription_text out)\<rparr>"
    if a: "audioContextRef st" and r: "toolCallRuns v msg"
      and t: "\<not> turnComplete sc" and i: "\<not> interrupted sc"
  proof -
    from assms(1) t have t': "\<not> isTurnComplete msg" by (simp add: isTurnComplete_def)
    from assms(1) i have i': "v = InterviewSession_tsx \<or> \<not> isInterrupted msg"
      by (simp add: isInterrupted_def)
    have "user (transcriptionRef (state_of (onmessage v dec now msg st))) = user (transcriptionRef st)"
      using onmessage_user [OF a r t', of dec now] u by simp
    moreover have "model (transcriptionRef (state_of (onmessage v dec now msg st))) =
        model (transcriptionRef st) @ toString_opt (transcription_text out)"
      using onmessage_model [OF a r t' i', of dec now] m by simp
    ultimately show ?thesis
      by (cases "transcriptionRef (state_of (onmessage v dec now msg st))") simp
  qed
  from one two show ?thesis by blast
qed

theorem both_transcriptions_agent_only_witness:
  "transcriptionRef
     (state_of (onmessage InterviewSession_tsx halfSecond 0 (bothDeltas ''Tell me'' ''I think'') opened)) =
     \<lparr>user = [], model = ''Tell me''\<rparr> \<and>
   transcriptionRef
     (state_of (onmessage Part_001 halfSecond 0 (bothDeltas ''Tell me'' ''I think'') opened)) =
     \<lparr>user = [], model = ''Tell me''\<rparr>"
proof -
  let ?sc = "noContent\<lparr>outputTranscription := Some \<lparr>transcription_text = Some ''Tell me''\<rparr>,
                        inputTranscription := Some \<lparr>transcription_text = Some ''I think''\<rparr>\<rparr>"
  let ?msg = "bothDeltas ''Tell me'' ''I think''"
  have sc: "serverContent ?msg = Some ?sc" by (simp add: bothDeltas_def contentMessage_def)
  have out: "outputTranscription ?sc = Some \<lparr>transcription_text = Some ''Tell me''\<rparr>"
    by (simp add: noContent_def)
  have inp: "inputTranscription ?sc = Some \<lparr>transcription_text = Some ''I think''\<rparr>"
    by (simp add: noContent_def)
  have pre: "audioContextRef opened \<and> toolCallRuns v ?msg \<and> \<not> turnComplete ?sc \<and> \<not> interrupted ?sc" for v
    by (simp add: opened_def mounted_def toolCallRuns_def bothDeltas_def contentMessage_def noContent_def)
  have buf: "transcriptionRef opened = \<lparr>user = [], model = []\<rparr>"
    by (simp add: opened_def mounted_def)
  show ?thesis
    using both_transcriptions_agent_only [OF sc out inp, of InterviewSession_tsx opened halfSecond 0]
      both_transcriptions_agent_only [OF sc out inp, of Part_001 opened halfSecond 0]
      pre buf
    by (simp add: toString_opt_def)
qed

subsection \<open>The playback branch\<close>

lemma onAudio_no_audio: "base64Audio msg = Value None \<Longrightarrow> onAudio dec now msg st = Completed st"
  by (simp add: onAudio_def)

lemma onAudio_enqueue:
  assumes "base64Audio msg = Value (Some b)" and "b \<noteq> []" and "dec b = Some d"
  shows "onAudio dec now msg st =
     Completed (st\<lparr>nextStartTimeRef := max (nextStartTimeRef st) now + d,
                   nextNode := nextNode st + 1,
                   calls := calls st @ [SourceStart (nextNode st) (max (nextStartTimeRef st) now) d],
                   sourcesRef := sourcesRef st @ [nextNode st]\<rparr>)"
  using assms by (simp add: onAudio_def Let_def)

text \<open>Whatever the message, the playback branch schedules nothing and does not move the
  cursor back, or schedules one unit at the later of cursor and clock and moves the cursor
  to its end.\<close>

lemma onAudio_step:
  assumes "\<forall>b d. dec b = Some d \<longrightarrow> 0 \<le> d"
  shows "(scheduled (calls (state_of (onAudio dec now msg st))) = scheduled (calls st) \<and>
          nextStartTimeRef st \<le> nextStartTimeRef (state_of (onAudio dec now msg st))) \<or>
         (\<exists>d. 0 \<le> d \<and>
            scheduled (calls (state_of (onAudio dec now msg st))) =
              scheduled (calls st) @ [(max (nextStartTimeRef st) now, d)] \<and>
            nextStartTimeRef (state_of (onAudio dec now msg st)) = max (nextStartTimeRef st) now + d)"
proof (cases "base64Audio msg")
  case TypeError
  then show ?thesis by (simp add: onAudio_def)
next
  case (Value a)
  show ?thesis
  proof (cases a)
    case None
    with Value show ?thesis by (simp add: onAudio_def)
  next
    case (Some b)
    show ?thesis
    proof (cases "b = []")
      case True
      with Value Some show ?thesis by (simp add: onAudio_def)
    next
      case False
      show ?thesis
      proof (cases "dec b")
        case None
        with Value Some False show ?thesis by (simp add: onAudio_def Let_def)
      next
        case (Some d)
        with assms have "0 \<le> d" by blast
        moreover from Value \<open>a = Some b\<close> have "base64Audio msg = Value (Some b)" by simp
        with False Some have "onAudio dec now msg st =
            Completed (st\<lparr>nextStartTimeRef := max (nextStartTimeRef st) now + d,
                   nextNode := nextNode st + 1,
                   calls := calls st @ [SourceStart (nextNode st) (max (nextStartTimeRef st) now) d],
                   sourcesRef := sourcesRef st @ [nextNode st]\<rparr>)"
          by (simp add: onAudio_enqueue [where dec = dec and b = b and d = d])
        ultimately show ?thesis by (simp add: scheduled_append)
      qed
    qed
  qed
qed

lemma onmessage_step:
  assumes "\<forall>b d. dec b = Some d \<longrightarrow> 0 \<le> d" and "\<not> isInterrupted msg"
  shows "(scheduled (calls (state_of (onmessage v dec now msg st))) = scheduled (calls st) \<and>
          nextStartTimeRef st \<le> nextStartTimeRef (state_of (onmessage v dec now msg st))) \<or>
         (\<exists>d. 0 \<le> d \<and>
            scheduled (calls (state_of (onmessage v dec now msg st))) =
              scheduled (calls st) @ [(max (nextStartTimeRef st) now, d)] \<and>
            nextStartTimeRef (state_of (onmessage v dec now msg st)) = max (nextStartTimeRef st) now + d)"
proof (cases "audioContextRef st")
  case False
  then show ?thesis by (simp add: onmessage_def)
next
  case True
  show ?thesis
  proof (cases "onToolCall v msg st")
    case (Rejected st1)
    then have "scheduled (calls st1) = scheduled (calls st)" "nextStartTimeRef st1 = nextStartTimeRef st"
      using onToolCall_frame(8) [of v msg st] onToolCall_frame(4) [of v msg st] by simp_all
    with Rejected True show ?thesis by (simp add: onmessage_def)
  next
    case (Completed st1)
    let ?st3 = "onTurnComplete v msg (onTranscription v msg st1)"
    from Completed have "scheduled (calls st1) = scheduled (calls st)" "nextStartTimeRef st1 = nextStartTimeRef st"
      using onToolCall_frame(8) [of v msg st] onToolCall_frame(4) [of v msg st] by simp_all
    then have same: "scheduled (calls ?st3) = scheduled (calls st)" "nextStartTimeRef ?st3 = nextStartTimeRef st"
      by (simp_all add: onTurnComplete_frame onTranscription_frame)
    have res: "state_of (onmessage v dec now msg st) = state_of (onAudio dec now msg ?st3)"
      using True Completed assms(2)
      by (cases "onAudio dec now msg ?st3") (simp_all add: onmessage_def onInterrupted_none)
    from onAudio_step [OF assms(1), of now msg ?st3] show ?thesis
      unfolding res same .
  qed
qed

subsection \<open>Schedules\<close>

lemma backToBack_Cons:
  "backToBack (u # us) = ((\<forall>u' \<in> set (take 1 us). fst u + snd u \<le> fst u') \<and> backToBack us)"
  by (cases u; cases us) auto

lemma backToBack_prefix_unit:
  assumes "backToBack us" and "\<forall>u' \<in> set us. s + d \<le> fst u'"
  shows "backToBack ((s, d) # us)"
proof (cases us)
  case Nil
  then show ?thesis by simp
next
  case (Cons u' rest)
  with assms show ?thesis by (cases u') simp
qed

lemma onmessages_schedule:
  assumes "\<forall>b d. dec b = Some d \<longrightarrow> 0 \<le> d"
    and "\<forall>ev \<in> set evs. \<not> isInterrupted (snd ev)"
  shows "\<exists>new. scheduled (calls (onmessages v dec evs st)) = scheduled (calls st) @ new \<and>
           backToBack new \<and> sorted (map fst new) \<and>
           (\<forall>u \<in> set new. nextStartTimeRef st \<le> fst u) \<and>
           nextStartTimeRef st \<le> nextStartTimeRef (onmessages v dec evs st)"
  using assms(2)
proof (induction evs arbitrary: st)
  case Nil
  show ?case by simp
next
  case (Cons ev evs)
  obtain now msg where ev: "ev = (now, msg)" by (cases ev)
  let ?st1 = "state_of (onmessage v dec now msg st)"
  from Cons.prems ev have ni: "\<not> isInterrupted msg" by simp
  from Cons.prems have rest: "\<forall>ev \<in> set evs. \<not> isInterrupted (snd ev)" by simp
  from Cons.IH [OF rest, of ?st1] obtain new where
    new: "scheduled (calls (onmessages v dec evs ?st1)) = scheduled (calls ?st1) @ new"
      "backToBack new" "sorted (map fst new)"
      "\<forall>u \<in> set new. nextStartTimeRef ?st1 \<le> fst u"
      "nextStartTimeRef ?st1 \<le> nextStartTimeRef (onmessages v dec evs ?st1)"
    by blast
  have run: "onmessages v dec (ev # evs) st = onmessages v dec evs ?st1"
    by (simp add: ev)
  from onmessage_step [OF assms(1) ni, of v now st]
  consider
    (idle) "scheduled (calls ?st1) = scheduled (calls st)"
      "nextStartTimeRef st \<le> nextStartTimeRef ?st1"
  | (unit) d where "0 \<le> d"
      "scheduled (calls ?st1) = scheduled (calls st) @ [(max (nextStartTimeRef st) now, d)]"
      "nextStartTimeRef ?st1 = max (nextStartTimeRef st) now + d"
    by blast
  then show ?case
  proof cases
    case idle
    have "\<forall>u \<in> set new. nextStartTimeRef st \<le> fst u"
      using new(4) idle(2) by auto
    moreover have "nextStartTimeRef st \<le> nextStartTimeRef (onmessages v dec evs ?st1)"
      using new(5) idle(2) by simp
    ultimately show ?thesis
      unfolding run using new(1,2,3) idle(1) by auto
  next
    case unit
    let ?s = "max (nextStartTimeRef st) now"
    have later: "\<forall>u \<in> set new. ?s + d \<le> fst u"
      using new(4) unit(3) by simp
    have b: "backToBack ((?s, d) # new)"
      using new(2) later by (rule backToBack_prefix_unit)
    have s: "sorted (map fst ((?s, d) # new))"
      using new(3) later unit(1) by auto
    have lo: "\<forall>u \<in> set ((?s, d) # new). nextStartTimeRef st \<le> fst u"
      using later unit(1) by auto
    have hi: "nextStartTimeRef st \<le> nextStartTimeRef (onmessages v dec evs ?st1)"
      using new(5) unit(1,3) by simp
    have eq: "scheduled (calls (onmessages v dec evs ?st1)) = scheduled (calls st) @ ((?s, d) # new)"
      using new(1) unit(2) by simp
    show ?thesis
      unfolding run using eq b s lo hi by blast
  qed
qed

lemma onmessage_enqueue:
  assumes "audioContextRef st" and "toolCallRuns v msg" and "\<not> isInterrupted msg"
    and "base64Audio msg = Value (Some b)" and "b \<noteq> []" and "dec b = Some d"
  shows "scheduled (calls (state_of (onmessage v dec now msg st))) =
           scheduled (calls st) @ [(max (nextStartTimeRef st) now, d)]"
    and "nextStartTimeRef (state_of (onmessage v dec now msg st)) = max (nextStartTimeRef st) now + d"
    and "sourcesRef (state_of (onmessage v dec now msg st)) = sourcesRef st @ [nextNode st]"
proof -
  let ?st1 = "state_of (onToolCall v msg st)"
  let ?st3 = "onTurnComplete v msg (onTranscription v msg ?st1)"
  let ?st4 = "?st3\<lparr>nextStartTimeRef := max (nextStartTimeRef ?st3) now + d,
                   nextNode := nextNode ?st3 + 1,
                   calls := calls ?st3 @ [SourceStart (nextNode ?st3) (max (nextStartTimeRef ?st3) now) d],
                   sourcesRef := sourcesRef ?st3 @ [nextNode ?st3]\<rparr>"
  have same: "scheduled (calls ?st3) = scheduled (calls st)"
    "nextStartTimeRef ?st3 = nextStartTimeRef st"
    "sourcesRef ?st3 = sourcesRef st" "nextNode ?st3 = nextNode st"
    by (simp_all add: onTurnComplete_frame onTranscription_frame onToolCall_frame)
  have au: "onAudio dec now msg ?st3 = Completed ?st4"
    using assms(4,5,6) by (simp add: onAudio_enqueue [where dec = dec and b = b and d = d])
  have res: "state_of (onmessage v dec now msg st) = ?st4"
    by (simp add: onmessage_runs [OF assms(1,2)] au onInterrupted_none [OF assms(3)])
  show "scheduled (calls (state_of (onmessage v dec now msg st))) =
           scheduled (calls st) @ [(max (nextStartTimeRef st) now, d)]"
    unfolding res using same by (simp add: scheduled_append)
  show "nextStartTimeRef (state_of (onmessage v dec now msg st)) = max (nextStartTimeRef st) now + d"
    unfolding res using same by simp
  show "sourcesRef (state_of (onmessage v dec now msg st)) = sourcesRef st @ [nextNode st]"
    unfolding res using same by simp
qed

text \<open>
  Claim C1. Over any run of messages without an interruption, with any clock readings, and
  with decoded durations that are not negative: the units scheduled during the run start in
  non-decreasing order, and none starts before the one scheduled before it has ended. A
  message whose chunk decodes is scheduled at \<open>max nextStartTimeRef currentTime\<close>, and
  \<open>nextStartTimeRef\<close> then stands at that start plus the duration of the buffer.
\<close>

theorem playback_schedule:
  assumes "\<forall>b d. dec b = Some d \<longrightarrow> 0 \<le> d"
    and "\<forall>ev \<in> set evs. \<not> isInterrupted (snd ev)"
  shows "backToBack (newlyScheduled st (onmessages v dec evs st)) \<and>
         sorted (map fst (newlyScheduled st (onmessages v dec evs st))) \<and>
         (audioContextRef st \<and> toolCallRuns v msg \<and> \<not> isInterrupted msg \<and>
          base64Audio msg = Value (Some b) \<and> b \<noteq> [] \<and> dec b = Some d \<longrightarrow>
            newlyScheduled st (state_of (onmessage v dec now msg st)) =
              [(max (nextStartTimeRef st) now, d)] \<and>
            nextStartTimeRef (state_of (onmessage v dec now msg st)) =
              max (nextStartTimeRef st) now + d)"
proof -
  from onmessages_schedule [OF assms, of v st] obtain new where
    new: "scheduled (calls (onmessages v dec evs st)) = scheduled (calls st) @ new"
      "backToBack new" "sorted (map fst new)"
    by blast
  from new(1) have "newlyScheduled st (onmessages v dec evs st) = new"
    by (simp add: newlyScheduled_def)
  with new(2,3) have trace: "backToBack (newlyScheduled st (onmessages v dec evs st))"
    "sorted (map fst (newlyScheduled st (onmessages v dec evs st)))"
    by simp_all
  have step: "newlyScheduled st (state_of (onmessage v dec now msg st)) =
              [(max (nextStartTimeRef st) now, d)] \<and>
            nextStartTimeRef (state_of (onmessage v dec now msg st)) =
              max (nextStartTimeRef st) now + d"
    if "audioContextRef st" "toolCallRuns v msg" "\<not> isInterrupted msg"
      "base64Audio msg = Value (Some b)" "b \<noteq> []" "dec b = Some d"
    using onmessage_enqueue(1,2) [where dec = dec, OF that, of now] by (simp add: newlyScheduled_def)
  from trace step show ?thesis by blast
qed

lemma halfSecond_nonneg: "\<forall>b d. halfSecond b = Some d \<longrightarrow> 0 \<le> d"
  by (simp add: halfSecond_def)

lemma audioChunk_facts:
  "toolCallRuns v (audioChunk b)" "\<not> isInterrupted (audioChunk b)" "\<not> isTurnComplete (audioChunk b)"
  "base64Audio (audioChunk b) = Value (Some b)"
  by (simp_all add: audioChunk_def contentMessage_def noContent_def toolCallRuns_def
      isInterrupted_def isTurnComplete_def base64Audio_def)

lemma opened_facts:
  "audioContextRef opened" "nextStartTimeRef opened = 0" "sourcesRef opened = []"
  "transcriptionRef opened = \<lparr>user = [], model = []\<rparr>" "currentTranscript opened = []"
  "sent opened = []" "calls opened = []" "sessionRef opened" "videoRef opened" "canvasRef opened"
  by (simp_all add: opened_def mounted_def)

theorem playback_schedule_witness:
  "newlyScheduled opened
     (onmessages Part_001 halfSecond
        [(0, audioChunk ''UklG''), (3 / 10, audioChunk ''RiBm''), (16 / 10, audioChunk ''bXQg'')] opened) =
     [(0, 1 / 2), (1 / 2, 1 / 2), (16 / 10, 1 / 2)] \<and>
   backToBack [(0, 1 / 2), (1 / 2, 1 / 2), (16 / 10, 1 / 2)] \<and>
   sorted (map fst [(0 :: real, 1 / 2 :: real), (1 / 2, 1 / 2), (16 / 10, 1 / 2)]) \<and>
   newlyScheduled opened (state_of (onmessage Part_001 halfSecond (3 / 10) (audioChunk ''UklG'') opened)) =
     [(3 / 10, 1 / 2)] \<and>
   nextStartTimeRef (state_of (onmessage Part_001 halfSecond (3 / 10) (audioChunk ''UklG'') opened)) =
     8 / 10"
proof -
  let ?evs = "[(0 :: real, audioChunk ''UklG''), (3 / 10, audioChunk ''RiBm''), (16 / 10, audioChunk ''bXQg'')]"
  have quiet: "\<forall>ev \<in> set ?evs. \<not> isInterrupted (snd ev)"
    by (simp add: audioChunk_facts)
  have run: "newlyScheduled opened (onmessages Part_001 halfSecond ?evs opened) =
     [(0, 1 / 2), (1 / 2, 1 / 2), (16 / 10, 1 / 2)]"
    by code_simp
  have chunk: "audioContextRef opened \<and> toolCallRuns Part_001 (audioChunk ''UklG'') \<and>
      \<not> isInterrupted (audioChunk ''UklG'') \<and>
      base64Audio (audioChunk ''UklG'') = Value (Some ''UklG'') \<and> ''UklG'' \<noteq> [] \<and>
      halfSecond ''UklG'' = Some (1 / 2)"
    by (simp add: audioChunk_facts opened_facts halfSecond_def)
  from playback_schedule [OF halfSecond_nonneg quiet, of opened Part_001 "audioChunk ''UklG''"
      "''UklG''" "1 / 2" "3 / 10"] chunk run
  show ?thesis by (simp add: opened_facts)
qed

subsection \<open>Interruption\<close>

lemma onmessage_interrupted:
  assumes "audioContextRef st" and "toolCallRuns v msg" and "isInterrupted msg"
    and "base64Audio msg = Value None"
  shows "sourcesRef (state_of (onmessage v dec now msg st)) = []"
    and "nextStartTimeRef (state_of (onmessage v dec now msg st)) = 0"
    and "stopped (calls (state_of (onmessage v dec now msg st))) = stopped (calls st) @ sourcesRef st"
    and "scheduled (calls (state_of (onmessage v dec now msg st))) = scheduled (calls st)"
    and "audioContextRef (state_of (onmessage v dec now msg st))"
proof -
  let ?st1 = "state_of (onToolCall v msg st)"
  let ?st3 = "onTurnComplete v msg (onTranscription v msg ?st1)"
  have same: "stopped (calls ?st3) = stopped (calls st)" "sourcesRef ?st3 = sourcesRef st"
    "scheduled (calls ?st3) = scheduled (calls st)"
    by (simp_all add: onTurnComplete_frame onTranscription_frame onToolCall_frame)
  have res: "state_of (onmessage v dec now msg st) = onInterrupted v msg ?st3"
    by (simp add: onmessage_runs [OF assms(1,2)] onAudio_no_audio [OF assms(4)])
  show "sourcesRef (state_of (onmessage v dec now msg st)) = []"
    unfolding res by (rule onInterrupted_stops(1) [OF assms(3)])
  show "nextStartTimeRef (state_of (onmessage v dec now msg st)) = 0"
    unfolding res by (rule onInterrupted_stops(2) [OF assms(3)])
  show "stopped (calls (state_of (onmessage v dec now msg st))) = stopped (calls st) @ sourcesRef st"
    unfolding res using same by (simp add: onInterrupted_stops(3) [OF assms(3)])
  show "scheduled (calls (state_of (onmessage v dec now msg st))) = scheduled (calls st)"
    unfolding res using same by (simp add: onInterrupted_frame)
  show "audioContextRef (state_of (onmessage v dec now msg st))"
    using assms(1) by (simp add: onmessage_audioContextRef)
qed

lemma onmessage_interrupted_model:
  assumes "audioContextRef st" and "toolCallRuns v msg" and "isInterrupted msg"
    and "\<not> isTurnComplete msg" and "base64Audio msg = Value None"
  shows "model (transcriptionRef (state_of (onmessage v dec now msg st))) =
           (case v of
              InterviewSession_tsx \<Rightarrow> model (transcriptionRef st) @ modelDelta msg
            | Part_001 \<Rightarrow> [])"
proof -
  let ?st1 = "state_of (onToolCall v msg st)"
  let ?st3 = "onTurnComplete v msg (onTranscription v msg ?st1)"
  have st3: "model (transcriptionRef ?st3) = model (transcriptionRef st) @ modelDelta msg"
    using assms(4) by (simp add: onTurnComplete_none onTranscription_buffers onToolCall_frame)
  have res: "state_of (onmessage v dec now msg st) = onInterrupted v msg ?st3"
    by (simp add: onmessage_runs [OF assms(1,2)] onAudio_no_audio [OF assms(5)])
  show ?thesis
    unfolding res using st3 by (cases v) (simp_all add: onInterrupted_stops(4) [OF assms(3)])
qed

lemma interruption_facts:
  "toolCallRuns v interruption" "isInterrupted interruption" "\<not> isTurnComplete interruption"
  "base64Audio interruption = Value None" "userDelta interruption = []"
  "modelDelta interruption = []"
  by (simp_all add: interruption_def contentMessage_def noContent_def toolCallRuns_def
      isInterrupted_def isTurnComplete_def base64Audio_def userDelta_def modelDelta_def)

text \<open>
  Claim C3, as the two revisions have it. A message that is an interruption and not a turn
  boundary, and carries no audio, handled with the audio contexts in place and the tool-call
  loop running through: the user's buffer holds what it held (and what the message itself
  adds to it, nothing for a bare interruption). The agent's buffer is emptied in
  \<^verbatim>\<open>part_001\<close>; in \<^verbatim>\<open>InterviewSession.tsx\<close> the interruption branch does not touch the
  buffers and the agent's buffer is kept as well.
\<close>

theorem interruption_buffers:
  assumes "audioContextRef st" and "toolCallRuns v msg" and "isInterrupted msg"
    and "\<not> isTurnComplete msg" and "base64Audio msg = Value None"
  shows "user (transcriptionRef (state_of (onmessage v dec now msg st))) =
           user (transcriptionRef st) @ userDelta msg \<and>
         model (transcriptionRef (state_of (onmessage v dec now msg st))) =
           (case v of
              InterviewSession_tsx \<Rightarrow> model (transcriptionRef st) @ modelDelta msg
            | Part_001 \<Rightarrow> [])"
  using onmessage_user [OF assms(1,2,4)] onmessage_interrupted_model [OF assms] by simp

theorem interruption_buffers_witness:
  "transcriptionRef
     (state_of (onmessage Part_001 halfSecond 0 interruption
        (opened\<lparr>transcriptionRef := \<lparr>user = ''I think'', model = ''Tell me''\<rparr>\<rparr>))) =
     \<lparr>user = ''I think'', model = []\<rparr> \<and>
   transcriptionRef
     (state_of (onmessage InterviewSession_tsx halfSecond 0 interruption
        (opened\<lparr>transcriptionRef := \<lparr>user = ''I think'', model = ''Tell me''\<rparr>\<rparr>))) =
     \<lparr>user = ''I think'', model = ''Tell me''\<rparr>"
proof -
  let ?st = "opened\<lparr>transcriptionRef := \<lparr>user = ''I think'', model = ''Tell me''\<rparr>\<rparr>"
  have a: "audioContextRef ?st" by (simp add: opened_facts)
  have p: "transcriptionRef (state_of (onmessage Part_001 halfSecond 0 interruption ?st)) =
      \<lparr>user = ''I think'', model = []\<rparr>"
    using interruption_buffers [OF a interruption_facts(1,2,3,4), of Part_001 halfSecond 0]
    by (cases "transcriptionRef (state_of (onmessage Part_001 halfSecond 0 interruption ?st))")
      (simp add: interruption_facts)
  have q: "transcriptionRef (state_of (onmessage InterviewSession_tsx halfSecond 0 interruption ?st)) =
      \<lparr>user = ''I think'', model = ''Tell me''\<rparr>"
    using interruption_buffers [OF a interruption_facts(1,2,3,4), of InterviewSession_tsx halfSecond 0]
    by (cases "transcriptionRef (state_of (onmessage InterviewSession_tsx halfSecond 0 interruption ?st))")
      (simp add: interruption_facts)
  from p q show ?thesis by simp
qed

text \<open>
  Claim C3 as stated fails on \<^verbatim>\<open>InterviewSession.tsx\<close>: after a bare interruption the
  agent's buffer still holds its text.
\<close>

theorem interruption_buffers_counterexample:
  "model (transcriptionRef
     (state_of (onmessage InterviewSession_tsx halfSecond 0 interruption
        (opened\<lparr>transcriptionRef := \<lparr>user = ''I think'', model = ''Tell me''\<rparr>\<rparr>)))) = ''Tell me'' \<and>
   model (transcriptionRef
     (state_of (onmessage InterviewSession_tsx halfSecond 0 interruption
        (opened\<lparr>transcriptionRef := \<lparr>user = ''I think'', model = ''Tell me''\<rparr>\<rparr>)))) \<noteq> []"
  by code_simp

subsection \<open>Cancelling playback\<close>

lemma enqueue_after_reset:
  assumes "audioContextRef st" and "nextStartTimeRef st = 0" and "0 \<le> now"
    and "toolCallRuns v msg" and "\<not> isInterrupted msg"
    and "base64Audio msg = Value (Some b)" and "b \<noteq> []" and "dec b = Some d"
  shows "newlyScheduled st (state_of (onmessage v dec now msg st)) = [(now, d)]"
  using onmessage_enqueue(1) [where dec = dec, OF assms(1,4,5,6,7,8), of now] assms(2,3)
  by (simp add: newlyScheduled_def)

text \<open>
  Claim C4, as the code has it. An interruption (with no audio in the same message) calls
  \<^verbatim>\<open>stop\<close> on every node of the live set, in insertion order, empties the set, and sets
  \<open>nextStartTimeRef\<close> to \<open>0\<close>. The output clock is never negative, so the next chunk
  starts at \<open>max 0 currentTime\<close>, the clock the handler of that chunk reads.
\<close>

theorem interruption_cancels_playback:
  assumes "audioContextRef st" and "toolCallRuns v msg" and "isInterrupted msg"
    and "base64Audio msg = Value None"
    and "toolCallRuns v msg'" and "\<not> isInterrupted msg'"
    and "base64Audio msg' = Value (Some b)" and "b \<noteq> []" and "dec b = Some d"
    and "0 \<le> now'"
  shows "stopped (calls (state_of (onmessage v dec now msg st))) = stopped (calls st) @ sourcesRef st \<and>
         sourcesRef (state_of (onmessage v dec now msg st)) = [] \<and>
         nextStartTimeRef (state_of (onmessage v dec now msg st)) = 0 \<and>
         newlyScheduled (state_of (onmessage v dec now msg st))
           (state_of (onmessage v dec now' msg' (state_of (onmessage v dec now msg st)))) =
           [(now', d)]"
proof -
  let ?st' = "state_of (onmessage v dec now msg st)"
  note i = onmessage_interrupted [OF assms(1,2,3,4), of dec now]
  have "newlyScheduled ?st' (state_of (onmessage v dec now' msg' ?st')) = [(now', d)]"
    using i(5) i(2) assms(10,5,6,7,8,9) by (rule enqueue_after_reset [where dec = dec])
  with i(1,2,3) show ?thesis by simp
qed

lemma onmessages_audioContextRef:
  "audioContextRef (onmessages v dec evs st) = audioContextRef st"
proof (induction evs arbitrary: st)
  case Nil
  show ?case by simp
next
  case (Cons ev evs)
  obtain now msg where "ev = (now, msg)" by (cases ev)
  with Cons.IH show ?case by (simp add: onmessage_audioContextRef)
qed

theorem interruption_cancels_playback_witness:
  "stopped (calls (state_of (onmessage Part_001 halfSecond (1 / 2) interruption
      (onmessages Part_001 halfSecond [(0, audioChunk ''UklG''), (0, audioChunk ''RiBm'')] opened)))) =
     [0, 1] \<and>
   sourcesRef (state_of (onmessage Part_001 halfSecond (1 / 2) interruption
      (onmessages Part_001 halfSecond [(0, audioChunk ''UklG''), (0, audioChunk ''RiBm'')] opened))) =
     [] \<and>
   nextStartTimeRef (state_of (onmessage Part_001 halfSecond (1 / 2) interruption
      (onmessages Part_001 halfSecond [(0, audioChunk ''UklG''), (0, audioChunk ''RiBm'')] opened))) =
     0 \<and>
   newlyScheduled
     (state_of (onmessage Part_001 halfSecond (1 / 2) interruption
        (onmessages Part_001 halfSecond [(0, audioChunk ''UklG''), (0, audioChunk ''RiBm'')] opened)))
     (state_of (onmessage Part_001 halfSecond (7 / 10) (audioChunk ''bXQg'')
        (state_of (onmessage Part_001 halfSecond (1 / 2) interruption
           (onmessages Part_001 halfSecond [(0, audioChunk ''UklG''), (0, audioChunk ''RiBm'')] opened))))) =
     [(7 / 10, 1 / 2)]"
proof -
  let ?playing = "onmessages Part_001 halfSecond [(0, audioChunk ''UklG''), (0, audioChunk ''RiBm'')] opened"
  have a: "audioContextRef ?playing"
    by (simp only: onmessages_audioContextRef opened_facts)
  have live: "sourcesRef ?playing = [0, 1]" by code_simp
  have none: "stopped (calls ?playing) = []" by code_simp
  have dec: "halfSecond ''bXQg'' = Some (1 / 2)" by (simp add: halfSecond_def)
  have b: "''bXQg'' \<noteq> []" by simp
  have t: "(0 :: real) \<le> 7 / 10" by simp
  from interruption_cancels_playback [where dec = halfSecond and v = Part_001 and now = "1 / 2",
      OF a interruption_facts(1,2,4) audioChunk_facts(1,2,4) b dec t]
  show ?thesis unfolding live none by simp
qed

text \<open>
  Claim C4 as stated fails: with the clock at half a second, the interruption sets the
  cursor to \<open>0\<close>, not to the clock.
\<close>

theorem interruption_cancels_playback_counterexample:
  "nextStartTimeRef
     (onmessages Part_001 halfSecond
        [(0, audioChunk ''UklG''), (0, audioChunk ''RiBm''), (1 / 2, interruption)] opened) = 0 \<and>
   nextStartTimeRef
     (onmessages Part_001 halfSecond
        [(0, audioChunk ''UklG''), (0, audioChunk ''RiBm''), (1 / 2, interruption)] opened) \<noteq> 1 / 2"
  by code_simp

subsection \<open>Tool calls\<close>

lemma onmessage_sent:
  assumes "audioContextRef st"
  shows "sent (state_of (onmessage v dec now msg st)) = sent (state_of (onToolCall v msg st))"
proof (cases "onToolCall v msg st")
  case (Rejected st1)
  with assms show ?thesis by (simp add: onmessage_def)
next
  case (Completed st1)
  let ?st3 = "onTurnComplete v msg (onTranscription v msg st1)"
  have b: "sent (state_of (onAudio dec now msg ?st3)) = sent st1"
    by (simp add: onAudio_frame onTurnComplete_frame onTranscription_frame)
  show ?thesis
  proof (cases "onAudio dec now msg ?st3")
    case (Completed st4)
    with b have "sent st4 = sent st1" by simp
    with Completed \<open>onToolCall v msg st = Completed st1\<close> assms show ?thesis
      by (simp add: onmessage_def onInterrupted_frame)
  next
    case (Rejected st4)
    with b have "sent st4 = sent st1" by simp
    with Rejected \<open>onToolCall v msg st = Completed st1\<close> assms show ?thesis
      by (simp add: onmessage_def)
  qed
qed

text \<open>
  Claim C5, as the code has it. With the audio contexts in place, a tool-call message sends
  one response for each call whose name is \<^verbatim>\<open>updateVisualFeedback\<close>, in the order of the
  calls and carrying the call's id and name, whatever \<open>cue\<close> and \<open>sentiment\<close> hold,
  and sends nothing for a call of any other name; what the rest of the handler does, or
  fails to do, changes nothing of it. For \<^verbatim>\<open>InterviewSession.tsx\<close> this is stated of
  a message in which every call to the declared tool has an \<open>args\<close> object; part_001
  needs no such condition.
\<close>

theorem declared_tool_acknowledged:
  assumes "audioContextRef st" and "toolCall msg = Some tc" and "functionCalls tc = Some fcs"
    and "list_all (destructures v) (filter declaredTool fcs)"
  shows "sent (state_of (onmessage v dec now msg st)) = sent st @ acknowledgements fcs"
proof -
  have "sent (state_of (onToolCall v msg st)) = sent (state_of (forFunctionCalls v fcs st))"
    using assms(2,3) by (simp add: onToolCall_def)
  also have "\<dots> = sent st @ acknowledgements fcs"
    using assms(4) by (rule forFunctionCalls_runs(2))
  finally show ?thesis by (simp add: onmessage_sent [OF assms(1)])
qed

theorem declared_tool_acknowledged_witness:
  "sent (state_of (onmessage InterviewSession_tsx halfSecond 0
      (toolInvocation
         [\<lparr>fc_id = Some ''call-1'', fc_name = Some ''updateVisualFeedback'',
           fc_args = Some \<lparr>cue = Some ''Good eye contact'', sentiment = Some ''positive''\<rparr>\<rparr>,
          \<lparr>fc_id = Some ''call-2'', fc_name = Some ''endInterview'', fc_args = None\<rparr>,
          \<lparr>fc_id = Some ''call-3'', fc_name = Some ''updateVisualFeedback'',
           fc_args = Some \<lparr>cue = None, sentiment = None\<rparr>\<rparr>])
      opened)) =
     [ToolResponse (Some ''call-1'') (Some ''updateVisualFeedback'') ''ok'',
      ToolResponse (Some ''call-3'') (Some ''updateVisualFeedback'') ''ok'']"
proof -
  let ?fcs = "[\<lparr>fc_id = Some ''call-1'', fc_name = Some ''updateVisualFeedback'',
           fc_args = Some \<lparr>cue = Some ''Good eye contact'', sentiment = Some ''positive''\<rparr>\<rparr>,
          \<lparr>fc_id = Some ''call-2'', fc_name = Some ''endInterview'', fc_args = None\<rparr>,
          \<lparr>fc_id = Some ''call-3'', fc_name = Some ''updateVisualFeedback'',
           fc_args = Some \<lparr>cue = None, sentiment = None\<rparr>\<rparr>]"
  have tc: "toolCall (toolInvocation ?fcs) = Some \<lparr>functionCalls = Some ?fcs\<rparr>"
    by (simp add: toolInvocation_def)
  have fcs: "functionCalls \<lparr>functionCalls = Some ?fcs\<rparr> = Some ?fcs" by simp
  have ok: "list_all (destructures InterviewSession_tsx) (filter declaredTool ?fcs)"
    by (simp add: destructures_def declaredTool_def)
  from declared_tool_acknowledged [OF opened_facts(1) tc fcs ok, of halfSecond 0]
  show ?thesis by (simp add: opened_facts acknowledgements_def declaredTool_def)
qed

text \<open>
  Claim C5 as stated fails: a call to a tool of another name gets no response, in either
  revision.
\<close>

theorem declared_tool_acknowledged_counterexample:
  "sent (state_of (onmessage Part_001 halfSecond 0
      (toolInvocation [\<lparr>fc_id = Some ''call-2'', fc_name = Some ''endInterview'', fc_args = None\<rparr>])
      opened)) = [] \<and>
   sent (state_of (onmessage InterviewSession_tsx halfSecond 0
      (toolInvocation [\<lparr>fc_id = Some ''call-2'', fc_name = Some ''endInterview'', fc_args = None\<rparr>])
      opened)) = []"
  by code_simp

subsection \<open>Frame capture\<close>

lemma frameTick_capture:
  assumes "videoRef st" and "canvasRef st" and "sessionRef st" and "ctx"
    and "v = InterviewSession_tsx \<or> videoWidth \<noteq> 0"
  shows "frameTick v ctx videoWidth st = st\<lparr>framesInFlight := framesInFlight st + 1\<rparr>"
  using assms by (cases v) (simp_all add: frameTick_def)

lemma frameTick_repeated:
  assumes "videoRef st" and "canvasRef st" and "sessionRef st" and "ctx"
    and "v = InterviewSession_tsx \<or> videoWidth \<noteq> 0"
  shows "((frameTick v ctx videoWidth) ^^ n) st = st\<lparr>framesInFlight := framesInFlight st + n\<rparr>"
proof (induction n)
  case 0
  show ?case by simp
next
  case (Suc n)
  let ?st = "st\<lparr>framesInFlight := framesInFlight st + n\<rparr>"
  have "frameTick v ctx videoWidth ?st = ?st\<lparr>framesInFlight := framesInFlight ?st + 1\<rparr>"
    using assms by (intro frameTick_capture) simp_all
  with Suc show ?case by simp
qed

text \<open>
  Claim C6, as the code has it. A tick at which the video element, the canvas and the
  channel are set and a 2D context is obtained (and, in \<^verbatim>\<open>part_001\<close>, the video has a
  width) starts a capture, however many earlier captures are still in flight: \<open>n\<close> such
  ticks with no callback in between add \<open>n\<close> frames in flight.
\<close>

theorem frameTick_never_waits:
  assumes "videoRef st" and "canvasRef st" and "sessionRef st" and "ctx"
    and "v = InterviewSession_tsx \<or> videoWidth \<noteq> 0"
  shows "framesInFlight (frameTick v ctx videoWidth st) = framesInFlight st + 1 \<and>
         framesInFlight (((frameTick v ctx videoWidth) ^^ n) st) = framesInFlight st + n"
  using frameTick_capture [OF assms] frameTick_repeated [OF assms, of n] by simp

theorem frameTick_never_waits_witness:
  "framesInFlight (frameTick InterviewSession_tsx True 1280 (opened\<lparr>framesInFlight := 1\<rparr>)) = 2 \<and>
   framesInFlight (((frameTick InterviewSession_tsx True 1280) ^^ 5) (opened\<lparr>framesInFlight := 1\<rparr>)) = 6"
proof -
  let ?st = "opened\<lparr>framesInFlight := 1\<rparr>"
  have r: "videoRef ?st" "canvasRef ?st" "sessionRef ?st" by (simp_all add: opened_facts)
  have w: "InterviewSession_tsx = InterviewSession_tsx \<or> (1280 :: nat) \<noteq> 0" by simp
  from frameTick_never_waits [OF r TrueI w, of 5] show ?thesis by simp
qed

text \<open>
  Claim C6 as stated fails: two ticks with no \<^verbatim>\<open>toBlob\<close> callback between them leave two
  frames in flight, none of them sent yet.
\<close>

theorem frameTick_never_waits_counterexample:
  "framesInFlight (frameTick Part_001 True 1280 (frameTick Part_001 True 1280 opened)) = 2 \<and>
   sent (frameTick Part_001 True 1280 (frameTick Part_001 True 1280 opened)) = []"
  by code_simp

subsection \<open>Teardown\<close>

lemma truthy_unset: "truthy (unset r) = False"
  by (simp add: unset_def truthy_def)

lemma unset_unset: "unset (unset r) = unset r"
  by (simp add: unset_def truthy_def)

lemma closeSession_eq:
  "closeSession st =
     st\<lparr>calls := calls st @ (if sessionRef st then [SessionClose] else []), sessionRef := False\<rparr>"
  by (cases st) (simp add: closeSession_def)

lemma closeAudioContexts_eq:
  "closeAudioContexts st =
     st\<lparr>calls := calls st @ (if audioContextRef st then [InputContextClose, OutputContextClose] else []),
        audioContextRef := False\<rparr>"
  by (cases st) (simp add: closeAudioContexts_def)

lemma clearFrameInterval_eq:
  "clearFrameInterval st =
     st\<lparr>calls := calls st @
          (if truthy (frameIntervalRef st) then [ClearInterval (the (frameIntervalRef st))] else []),
        frameIntervalRef := unset (frameIntervalRef st)\<rparr>"
  by (cases st) (simp add: clearFrameInterval_def unset_def)

lemma clearTimerInterval_eq:
  "clearTimerInterval st =
     st\<lparr>calls := calls st @
          (if truthy (timerIntervalRef st) then [ClearInterval (the (timerIntervalRef st))] else []),
        timerIntervalRef := unset (timerIntervalRef st)\<rparr>"
  by (cases st) (simp add: clearTimerInterval_def unset_def)

lemma clearFeedbackTimeout_eq:
  "clearFeedbackTimeout st =
     st\<lparr>calls := calls st @
          (if truthy (feedbackTimeoutRef st) then [ClearTimeout (the (feedbackTimeoutRef st))] else [])\<rparr>"
  by (cases st) (simp add: clearFeedbackTimeout_def)

lemma cleanup_eq:
  "cleanup st =
     st\<lparr>calls := calls st @ releases st, sessionRef := False, audioContextRef := False,
        frameIntervalRef := unset (frameIntervalRef st),
        timerIntervalRef := unset (timerIntervalRef st),
        sourcesRef := [], nextStartTimeRef := 0, isReady := False, isListening := False\<rparr>"
  unfolding cleanup_def Let_def
  by (simp only: closeSession_eq closeAudioContexts_eq clearFrameInterval_eq clearTimerInterval_eq
      clearFeedbackTimeout_eq stopSources_def releases_def)
    (simp del: append_assoc)

lemma releases_cleanup:
  "releases (cleanup st) =
     (if truthy (feedbackTimeoutRef st) then [ClearTimeout (the (feedbackTimeoutRef st))] else [])"
  by (simp add: cleanup_eq releases_def truthy_unset)

lemma cleanup_again:
  "cleanup (cleanup st) =
     (cleanup st)\<lparr>calls := calls (cleanup st) @
        (if truthy (feedbackTimeoutRef st) then [ClearTimeout (the (feedbackTimeoutRef st))] else [])\<rparr>"
proof -
  have "cleanup (cleanup st) =
      (cleanup st)\<lparr>calls := calls (cleanup st) @ releases (cleanup st), sessionRef := False,
        audioContextRef := False,
        frameIntervalRef := unset (frameIntervalRef (cleanup st)),
        timerIntervalRef := unset (timerIntervalRef (cleanup st)),
        sourcesRef := [], nextStartTimeRef := 0, isReady := False, isListening := False\<rparr>"
    by (rule cleanup_eq)
  also have "\<dots> = (cleanup st)\<lparr>calls := calls (cleanup st) @ releases (cleanup st)\<rparr>"
    by (simp add: cleanup_eq [of st] unset_unset)
  finally show ?thesis by (simp only: releases_cleanup)
qed

lemma cleanup_mounted: "cleanup mounted = mounted"
  by (simp add: cleanup_eq releases_def unset_def truthy_def mounted_def)

lemma cleanup_released:
  "\<not> sessionRef (cleanup st)" "\<not> audioContextRef (cleanup st)"
  "\<not> truthy (frameIntervalRef (cleanup st))" "\<not> truthy (timerIntervalRef (cleanup st))"
  "sourcesRef (cleanup st) = []" "nextStartTimeRef (cleanup st) = 0"
  "calls (cleanup st) = calls st @ releases st"
  by (simp_all add: cleanup_eq truthy_unset)

text \<open>
  Claim C8, at a session that has shown one cue: the first \<^verbatim>\<open>cleanup\<close> closes the channel
  and the contexts and clears the two intervals and the cue timer (handle 3); the second
  clears the cue timer again, since \<open>feedbackTimeoutRef\<close> still holds the handle.
\<close>

theorem cleanup_twice_clears_cue_timer_again:
  "calls (cleanup (state_of (onmessage Part_001 halfSecond 0 (toolInvocation [cueCall]) opened))) =
     [SetTimeout 3 4000, SessionClose, InputContextClose, OutputContextClose,
      ClearInterval 1, ClearInterval 2, ClearTimeout 3] \<and>
   calls (cleanup (cleanup
      (state_of (onmessage Part_001 halfSecond 0 (toolInvocation [cueCall]) opened)))) =
     [SetTimeout 3 4000, SessionClose, InputContextClose, OutputContextClose,
      ClearInterval 1, ClearInterval 2, ClearTimeout 3, ClearTimeout 3] \<and>
   calls (cleanup (state_of (onmessage InterviewSession_tsx halfSecond 0 (toolInvocation [cueCall]) opened))) =
     [SetTimeout 3 5000, SessionClose, InputContextClose, OutputContextClose,
      ClearInterval 1, ClearInterval 2, ClearTimeout 3] \<and>
   calls (cleanup (cleanup
      (state_of (onmessage InterviewSession_tsx halfSecond 0 (toolInvocation [cueCall]) opened)))) =
     [SetTimeout 3 5000, SessionClose, InputContextClose, OutputContextClose,
      ClearInterval 1, ClearInterval 2, ClearTimeout 3, ClearTimeout 3]"
  by code_simp

subsection \<open>Turns\<close>

lemma onmessages_Cons:
  "onmessages v dec (ev # evs) st =
     onmessages v dec evs (state_of (onmessage v dec (fst ev) (snd ev) st))"
  by (cases ev) simp

lemma onmessages_history_kept:
  assumes "\<forall>ev \<in> set evs. \<not> isTurnComplete (snd ev)"
  shows "currentTranscript (onmessages v dec evs st) = currentTranscript st"
  using assms
proof (induction evs arbitrary: st)
  case Nil
  show ?case by simp
next
  case (Cons ev evs)
  then show ?case by (simp add: onmessages_Cons onmessage_history_kept)
qed

lemma onmessages_user:
  assumes "audioContextRef st"
    and "\<forall>ev \<in> set evs. toolCallRuns v (snd ev) \<and> \<not> isTurnComplete (snd ev)"
  shows "user (transcriptionRef (onmessages v dec evs st)) =
           user (transcriptionRef st) @ concat (map (userDelta \<circ> snd) evs)"
  using assms
proof (induction evs arbitrary: st)
  case Nil
  show ?case by simp
next
  case (Cons ev evs)
  let ?st1 = "state_of (onmessage v dec (fst ev) (snd ev) st)"
  from Cons.prems have ev: "toolCallRuns v (snd ev)" "\<not> isTurnComplete (snd ev)"
    and rest: "\<forall>ev \<in> set evs. toolCallRuns v (snd ev) \<and> \<not> isTurnComplete (snd ev)"
    by simp_all
  have a: "audioContextRef ?st1" using Cons.prems(1) by (simp add: onmessage_audioContextRef)
  have "user (transcriptionRef ?st1) = user (transcriptionRef st) @ userDelta (snd ev)"
    using Cons.prems(1) ev by (rule onmessage_user)
  with Cons.IH [OF a rest] show ?case by (simp add: onmessages_Cons)
qed

lemma onmessages_model:
  assumes "audioContextRef st"
    and "\<forall>ev \<in> set evs. toolCallRuns v (snd ev) \<and> \<not> isTurnComplete (snd ev)"
    and "v = InterviewSession_tsx \<or> (\<forall>ev \<in> set evs. \<not> isInterrupted (snd ev))"
  shows "model (transcriptionRef (onmessages v dec evs st)) =
           model (transcriptionRef st) @ concat (map (modelDelta \<circ> snd) evs)"
  using assms
proof (induction evs arbitrary: st)
  case Nil
  show ?case by simp
next
  case (Cons ev evs)
  let ?st1 = "state_of (onmessage v dec (fst ev) (snd ev) st)"
  from Cons.prems have ev: "toolCallRuns v (snd ev)" "\<not> isTurnComplete (snd ev)"
    and rest: "\<forall>ev \<in> set evs. toolCallRuns v (snd ev) \<and> \<not> isTurnComplete (snd ev)"
    by simp_all
  from Cons.prems(3) have i: "v = InterviewSession_tsx \<or> \<not> isInterrupted (snd ev)"
    and irest: "v = InterviewSession_tsx \<or> (\<forall>ev \<in> set evs. \<not> isInterrupted (snd ev))"
    by auto
  have a: "audioContextRef ?st1" using Cons.prems(1) by (simp add: onmessage_audioContextRef)
  have "model (transcriptionRef ?st1) = model (transcriptionRef st) @ modelDelta (snd ev)"
    using Cons.prems(1) ev i by (rule onmessage_model)
  with Cons.IH [OF a rest irest] show ?case by (simp add: onmessages_Cons)
qed

lemma newTurns_filter:
  "newTurns u m =
     filter (\<lambda>t. turn_text t \<noteq> [])
       [\<lparr>role = User, turn_text = u\<rparr>, \<lparr>role = Interviewer, turn_text = m\<rparr>]"
  by (simp add: newTurns_def)

text \<open>
  Claim C2, as the code has it. After any run of messages without a turn boundary, a
  turn-boundary message appends, user first, one turn for each of the two trimmed buffers
  that is not empty, and empties both buffers. The user's text is the trimmed concatenation,
  in arrival order, of what the buffer held at the start of the run and the user's deltas
  of the run, interruptions or not; the agent's buffer holds the agent's deltas of the run
  likewise in \<^verbatim>\<open>InterviewSession.tsx\<close>, and in \<^verbatim>\<open>part_001\<close> when the run has no
  interruption (which empties it there).
\<close>

theorem turn_boundary_flushes_buffers:
  assumes "audioContextRef st"
    and "\<forall>ev \<in> set evs. toolCallRuns v (snd ev) \<and> \<not> isTurnComplete (snd ev)"
    and "toolCallRuns v boundary" and "isTurnComplete boundary"
  shows "currentTranscript (state_of (onmessage v dec now boundary (onmessages v dec evs st))) =
           currentTranscript st @
           filter (\<lambda>t. turn_text t \<noteq> [])
             [\<lparr>role = User,
               turn_text = trim (user (transcriptionRef st) @
                                 concat (map (userDelta \<circ> snd) evs) @ userDelta boundary)\<rparr>,
              \<lparr>role = Interviewer,
               turn_text = trim (model (transcriptionRef (onmessages v dec evs st)) @
                                 modelDelta boundary)\<rparr>] \<and>
         transcriptionRef (state_of (onmessage v dec now boundary (onmessages v dec evs st))) =
           \<lparr>user = [], model = []\<rparr> \<and>
         (v = InterviewSession_tsx \<or> (\<forall>ev \<in> set evs. \<not> isInterrupted (snd ev)) \<longrightarrow>
            model (transcriptionRef (onmessages v dec evs st)) =
              model (transcriptionRef st) @ concat (map (modelDelta \<circ> snd) evs))"
proof -
  let ?st' = "onmessages v dec evs st"
  have a: "audioContextRef ?st'" using assms(1) by (simp add: onmessages_audioContextRef)
  have h: "currentTranscript ?st' = currentTranscript st"
    using assms(2) by (simp add: onmessages_history_kept)
  have u: "user (transcriptionRef ?st') =
      user (transcriptionRef st) @ concat (map (userDelta \<circ> snd) evs)"
    using assms(1,2) by (rule onmessages_user)
  note t = onmessage_turnComplete [OF a assms(3,4), of dec now]
  have one: "currentTranscript (state_of (onmessage v dec now boundary ?st')) =
           currentTranscript st @
           filter (\<lambda>t. turn_text t \<noteq> [])
             [\<lparr>role = User,
               turn_text = trim (user (transcriptionRef st) @
                                 concat (map (userDelta \<circ> snd) evs) @ userDelta boundary)\<rparr>,
              \<lparr>role = Interviewer,
               turn_text = trim (model (transcriptionRef ?st') @ modelDelta boundary)\<rparr>]"
    unfolding t(1) h u newTurns_filter by simp
  have three: "model (transcriptionRef ?st') =
      model (transcriptionRef st) @ concat (map (modelDelta \<circ> snd) evs)"
    if "v = InterviewSession_tsx \<or> (\<forall>ev \<in> set evs. \<not> isInterrupted (snd ev))"
    using assms(1,2) that by (rule onmessages_model)
  from one t(2) three show ?thesis by blast
qed

lemma delta_facts:
  "toolCallRuns v (inputDelta t)" "\<not> isTurnComplete (inputDelta t)" "\<not> isInterrupted (inputDelta t)"
  "toolCallRuns v (outputDelta t)" "\<not> isTurnComplete (outputDelta t)" "\<not> isInterrupted (outputDelta t)"
  "toolCallRuns v turnBoundary" "isTurnComplete turnBoundary"
  by (simp_all add: inputDelta_def outputDelta_def turnBoundary_def contentMessage_def noContent_def
      toolCallRuns_def isTurnComplete_def isInterrupted_def)

theorem turn_boundary_flushes_buffers_witness:
  "currentTranscript
     (state_of (onmessage Part_001 halfSecond 3 turnBoundary
        (onmessages Part_001 halfSecond
           [(0, outputDelta '' Tell me. ''), (1, inputDelta ''Hello''), (2, inputDelta '' world '')]
           opened))) =
     [\<lparr>role = User, turn_text = ''Hello world''\<rparr>, \<lparr>role = Interviewer, turn_text = ''Tell me.''\<rparr>] \<and>
   transcriptionRef
     (state_of (onmessage Part_001 halfSecond 3 turnBoundary
        (onmessages Part_001 halfSecond
           [(0, outputDelta '' Tell me. ''), (1, inputDelta ''Hello''), (2, inputDelta '' world '')]
           opened))) = \<lparr>user = [], model = []\<rparr>"
proof -
  let ?evs = "[(0 :: real, outputDelta '' Tell me. ''), (1, inputDelta ''Hello''), (2, inputDelta '' world '')]"
  have evs: "\<forall>ev \<in> set ?evs. toolCallRuns Part_001 (snd ev) \<and> \<not> isTurnComplete (snd ev)"
    by (simp add: delta_facts)
  have quiet: "Part_001 = InterviewSession_tsx \<or> (\<forall>ev \<in> set ?evs. \<not> isInterrupted (snd ev))"
    by (simp add: delta_facts)
  note t = turn_boundary_flushes_buffers [OF opened_facts(1) evs delta_facts(7,8), of halfSecond 3]
  from t quiet have m: "model (transcriptionRef (onmessages Part_001 halfSecond ?evs opened)) =
      model (transcriptionRef opened) @ concat (map (modelDelta \<circ> snd) ?evs)"
    by blast
  have turns: "filter (\<lambda>t. turn_text t \<noteq> [])
             [\<lparr>role = User,
               turn_text = trim (user (transcriptionRef opened) @
                                 concat (map (userDelta \<circ> snd) ?evs) @ userDelta turnBoundary)\<rparr>,
              \<lparr>role = Interviewer,
               turn_text = trim ((model (transcriptionRef opened) @ concat (map (modelDelta \<circ> snd) ?evs)) @
                                 modelDelta turnBoundary)\<rparr>] =
     [\<lparr>role = User, turn_text = ''Hello world''\<rparr>, \<lparr>role = Interviewer, turn_text = ''Tell me.''\<rparr>]"
    by code_simp
  from t show ?thesis unfolding m turns by (simp add: opened_facts)
qed

text \<open>
  Claim C2 as stated fails: the user's deltas from before an interruption are part of the
  turn, not only those since the interruption.
\<close>

theorem turn_boundary_flushes_buffers_counterexample:
  "currentTranscript
     (onmessages Part_001 halfSecond
        [(0, inputDelta ''Hello''), (1, interruption), (2, inputDelta '' world''), (3, turnBoundary)]
        opened) = [\<lparr>role = User, turn_text = ''Hello world''\<rparr>] \<and>
   currentTranscript
     (onmessages Part_001 halfSecond
        [(0, inputDelta ''Hello''), (1, interruption), (2, inputDelta '' world''), (3, turnBoundary)]
        opened) \<noteq> [\<lparr>role = User, turn_text = trim (userDelta (inputDelta '' world''))\<rparr>]"
  by code_simp

end
